theory Spec2Isabelle
  imports Main
begin

unbundle bit_operations_syntax

section \<open>Outcomes of a call\<close>

text \<open>
  A C function of jate.c either returns, or reads memory it does not own (undefined
  behaviour, \<open>Fault\<close>), or ends the process through \<open>exit\<close> (\<open>Exited\<close>, with the
  status), or is still waiting for terminal input when the recorded trace of terminal
  events ends (\<open>Blocked\<close>).
\<close>

datatype 'a outcome = Done 'a | Fault | Exited int | Blocked

fun andThen :: "'a outcome \<Rightarrow> ('a \<Rightarrow> 'b outcome) \<Rightarrow> 'b outcome" where
  "andThen (Done x) f = f x"
| "andThen Fault f = Fault"
| "andThen (Exited n) f = Exited n"
| "andThen Blocked f = Blocked"

section \<open>Defines\<close>

definition JATE_TABSTOP :: int where
  "JATE_TABSTOP = 8"

definition JATE_QUIT_TIMES :: int where
  "JATE_QUIT_TIMES = 3"

definition CTRL_KEY :: "int \<Rightarrow> int" where
  "CTRL_KEY k = k AND 0x1f"

definition BACKSPACE :: int where "BACKSPACE = 127"
definition ARROW_LEFT :: int where "ARROW_LEFT = 1000"
definition ARROW_RIGHT :: int where "ARROW_RIGHT = 1001"
definition ARROW_UP :: int where "ARROW_UP = 1002"
definition ARROW_DOWN :: int where "ARROW_DOWN = 1003"
definition DEL_KEY :: int where "DEL_KEY = 1004"
definition HOME_KEY :: int where "HOME_KEY = 1005"
definition END_KEY :: int where "END_KEY = 1006"
definition PAGE_UP :: int where "PAGE_UP = 1007"
definition PAGE_DOWN :: int where "PAGE_DOWN = 1008"

text \<open>The character constants the source compares against.\<close>

definition TAB :: char where "TAB = CHR 0x09"
definition LF :: char where "LF = CHR 0x0A"
definition CR :: char where "CR = CHR 0x0D"
definition ESC :: char where "ESC = CHR 0x1B"
definition NUL :: char where "NUL = CHR 0x00"
definition SPACE :: char where "SPACE = CHR 0x20"

definition INT_MAX :: int where "INT_MAX = 2147483647"

section \<open>Data\<close>

text \<open>
  \<open>struct erow\<close>: the buffer \<open>chars\<close> with its length \<open>size\<close> is the list \<open>chars\<close>, and
  \<open>render\<close> with \<open>rsize\<close> the list \<open>render\<close>; the terminating NUL byte the source keeps
  at \<open>chars[size]\<close> is read through \<open>char_at\<close> below. C's \<open>int\<close> is \<open>int\<close>; the one
  computation that can pass \<open>INT_MAX\<close> within the claims, the size of the rendering
  buffer in \<open>editorUpdateRow\<close>, is checked against it there.
\<close>

record erow =
  chars :: string
  render :: string

definition row_size :: "erow \<Rightarrow> int" where
  "row_size r = int (length (chars r))"

definition rsize :: "erow \<Rightarrow> int" where
  "rsize r = int (length (render r))"

text \<open>
  \<open>struct editorConfig\<close>. The array \<open>E.row\<close> with its count \<open>E.numrows\<close> is the list
  \<open>row\<close>. \<open>quit_times\<close> is the static local of \<open>editorProcessKeypress\<close>. The saved
  terminal attributes and the time stamp of the status message are left out.
\<close>

record editorConfig =
  cx :: int
  cy :: int
  rx :: int
  rowoff :: int
  coloff :: int
  screenrows :: int
  screencols :: int
  row :: "erow list"
  dirty :: int
  filename :: "string option"
  statusmsg :: string
  quit_times :: int

definition numrows :: "editorConfig \<Rightarrow> int" where
  "numrows E = int (length (row E))"

text \<open>\<open>E.row[i]\<close>, dereferenced: only the lines \<open>0 .. numrows - 1\<close> exist.\<close>

definition row_at :: "editorConfig \<Rightarrow> int \<Rightarrow> erow outcome" where
  "row_at E i = (if 0 \<le> i \<and> i < numrows E then Done (row E ! nat i) else Fault)"

text \<open>\<open>row->chars[j]\<close>, read: the bytes \<open>0 .. size - 1\<close> and the NUL after them.\<close>

definition char_at :: "string \<Rightarrow> int \<Rightarrow> char outcome" where
  "char_at cs j =
     (if 0 \<le> j \<and> j < int (length cs) then Done (cs ! nat j)
      else if j = int (length cs) then Done NUL
      else Fault)"

section \<open>Row operations\<close>

text \<open>\<open>editorRowCxToRx\<close>: the loop \<open>for (j = 0; j < cx; ++j)\<close>, from \<open>j\<close> with \<open>rx\<close>.\<close>

function cx_to_rx_loop :: "string \<Rightarrow> int \<Rightarrow> int \<Rightarrow> int \<Rightarrow> int outcome" where
  "cx_to_rx_loop cs cx' j rx' =
     (if j < cx' then
        andThen (char_at cs j) (\<lambda>c.
          cx_to_rx_loop cs cx' (j + 1)
            ((if c = TAB then rx' + ((JATE_TABSTOP - 1) - (rx' mod JATE_TABSTOP)) else rx') + 1))
      else Done rx')"
  by pat_completeness auto
termination
  by (relation "measure (\<lambda>(cs, cx', j, rx'). nat (cx' - j))") auto

declare cx_to_rx_loop.simps [simp del]

definition editorRowCxToRx :: "erow \<Rightarrow> int \<Rightarrow> int outcome" where
  "editorRowCxToRx r cx' = cx_to_rx_loop (chars r) cx' 0 0"

text \<open>
  \<open>editorUpdateRow\<close>. The inner loop \<open>while (idx % JATE_TABSTOP != 0) render[idx++] = ' '\<close>
  is \<open>pad_to_tabstop\<close>, on the bytes rendered so far (\<open>idx\<close> is their number); the outer
  loop over \<open>chars\<close> is \<open>render_loop\<close>.
\<close>

lemma pad_measure:
  "(n::nat) mod 8 \<noteq> 0 \<Longrightarrow> (8 - Suc n mod 8) mod 8 < (8 - n mod 8) mod 8"
proof -
  assume a: "n mod 8 \<noteq> 0"
  define k where "k = n mod 8"
  from a have k: "0 < k" "k < 8"
    by (simp_all add: k_def)
  have "Suc n mod 8 = (if Suc k = 8 then 0 else Suc k)"
    by (simp add: mod_Suc k_def)
  then show ?thesis
    using k unfolding k_def [symmetric] by (auto split: if_splits)
qed

function pad_to_tabstop :: "string \<Rightarrow> string" where
  "pad_to_tabstop out =
     (if int (length out) mod JATE_TABSTOP \<noteq> 0 then pad_to_tabstop (out @ [SPACE]) else out)"
  by pat_completeness auto
termination
proof (relation "measure (\<lambda>out. (8 - length out mod 8) mod 8)")
  show "wf (measure (\<lambda>out. (8 - length out mod 8) mod 8))"
    by simp
next
  fix out :: string
  assume "int (length out) mod JATE_TABSTOP \<noteq> 0"
  then have "int (length out mod 8) \<noteq> int 0"
    by (simp add: JATE_TABSTOP_def zmod_int)
  then have "length out mod 8 \<noteq> 0"
    by (simp only: of_nat_eq_iff not_False_eq_True)
  then have "(8 - Suc (length out) mod 8) mod 8 < (8 - length out mod 8) mod 8"
    by (rule pad_measure)
  then show "(out @ [SPACE], out) \<in> measure (\<lambda>out. (8 - length out mod 8) mod 8)"
    by (simp only: in_measure length_append list.size add_Suc_right add_0_right)
qed

declare pad_to_tabstop.simps [simp del]

fun render_loop :: "string \<Rightarrow> string \<Rightarrow> string" where
  "render_loop [] out = out"
| "render_loop (c # cs) out =
     (if c = TAB then render_loop cs (pad_to_tabstop (out @ [SPACE]))
      else render_loop cs (out @ [c]))"

text \<open>
  The first loop of \<open>editorUpdateRow\<close>, \<open>if (row->chars[j] == '\t') tabs++\<close>, from the value
  \<open>tabs\<close> holds when the loop starts.
\<close>

fun count_tabs :: "string \<Rightarrow> int \<Rightarrow> int" where
  "count_tabs [] tabs = tabs"
| "count_tabs (c # cs) tabs = count_tabs cs (if c = TAB then tabs + 1 else tabs)"

text \<open>
  \<open>editorUpdateRow\<close>. The local \<open>int tabs;\<close> is declared without a value, so the first loop
  counts up from whatever the call finds in it: the argument \<open>tabs0\<close>. (C leaves the read
  of such a variable undefined; the compiled program reads some \<open>int\<close>, and every value
  is allowed for here.) The buffer of the rendering gets
  \<open>row->size + tabs * (JATE_TABSTOP - 1) + 1\<close> bytes, a sum computed in \<open>int\<close>, which must
  not pass \<open>INT_MAX\<close>; an allocation of a size that is an \<open>int\<close> is taken to succeed, as
  every allocation of the program is. The second loop and the closing NUL write the bytes
  \<open>render[0 .. idx]\<close>: with fewer than \<open>idx + 1\<close> bytes in the buffer they are written
  past its end, and with a negative size, which no \<open>malloc\<close> grants once it is a
  \<open>size_t\<close>, through the null pointer. In both cases, and with a \<open>tabs\<close> so far below
  zero that its product overflows, the sum is below \<open>idx + 1\<close>.
\<close>

definition editorUpdateRow :: "int \<Rightarrow> erow \<Rightarrow> erow outcome" where
  "editorUpdateRow tabs0 r =
     (let tabs = count_tabs (chars r) tabs0;
          room = row_size r + tabs * (JATE_TABSTOP - 1) + 1;
          out = render_loop (chars r) []
      in if room > INT_MAX then Fault
         else if room < int (length out) + 1 then Fault
         else Done (r\<lparr>render := out\<rparr>))"

text \<open>
  Every function below that reaches \<open>editorUpdateRow\<close> has, as its first argument, the
  value that call finds in \<open>tabs\<close>; a function that reaches it at two places has two.
\<close>

text \<open>
  \<open>editorInsertRow(at, s, len)\<close>; \<open>s\<close> is the \<open>len\<close> bytes copied. The new slot is
  \<open>at \<le> numrows\<close> of the array grown by one.
\<close>

definition editorInsertRow :: "int \<Rightarrow> int \<Rightarrow> string \<Rightarrow> editorConfig \<Rightarrow> editorConfig outcome" where
  "editorInsertRow tabs0 at s E =
     (if at < 0 \<or> at > numrows E then Done E
      else andThen (editorUpdateRow tabs0 \<lparr>chars = s, render = []\<rparr>) (\<lambda>new.
        Done (E\<lparr>row := take (nat at) (row E) @ [new] @ drop (nat at) (row E),
                 dirty := dirty E + 1\<rparr>)))"

text \<open>
  \<open>editorDelRow\<close>: \<open>editorFreeRow(&E.row[at])\<close> dereferences line \<open>at\<close>, and the
  \<open>memmove\<close> moves \<open>numrows - at - 1\<close> lines, a count that must not be negative.
\<close>

definition editorDelRow :: "int \<Rightarrow> editorConfig \<Rightarrow> editorConfig outcome" where
  "editorDelRow at E =
     (if at < 0 \<or> at > numrows E then Done E
      else andThen (row_at E at) (\<lambda>freed.
        if numrows E - at - 1 < 0 then Fault
        else Done (E\<lparr>row := take (nat at) (row E)
                              @ take (nat (numrows E - at - 1)) (drop (nat (at + 1)) (row E)),
                     dirty := dirty E + 1\<rparr>)))"

text \<open>
  The three functions below take \<open>erow *row\<close> in the source; here the line is named by
  its index \<open>i\<close> in \<open>E.row\<close>, and dereferencing it outside the array is a \<open>Fault\<close>.
  Storing the \<open>int c\<close> into a \<open>char\<close> keeps its low eight bits.
\<close>

definition editorRowInsertChar ::
  "int \<Rightarrow> int \<Rightarrow> int \<Rightarrow> int \<Rightarrow> editorConfig \<Rightarrow> editorConfig outcome" where
  "editorRowInsertChar tabs0 i at c E =
     andThen (row_at E i) (\<lambda>r.
       let at' = (if at < 0 \<or> at > row_size r then row_size r else at) in
       andThen (editorUpdateRow tabs0
                  (r\<lparr>chars := take (nat at') (chars r) @ [char_of c] @ drop (nat at') (chars r)\<rparr>))
         (\<lambda>r'. Done (E\<lparr>row := (row E)[nat i := r'], dirty := dirty E + 1\<rparr>)))"

definition editorRowAppendString ::
  "int \<Rightarrow> int \<Rightarrow> string \<Rightarrow> editorConfig \<Rightarrow> editorConfig outcome" where
  "editorRowAppendString tabs0 i s E =
     andThen (row_at E i) (\<lambda>r.
       andThen (editorUpdateRow tabs0 (r\<lparr>chars := chars r @ s\<rparr>)) (\<lambda>r'.
         Done (E\<lparr>row := (row E)[nat i := r'], dirty := dirty E + 1\<rparr>)))"

definition editorRowDelChar :: "int \<Rightarrow> int \<Rightarrow> int \<Rightarrow> editorConfig \<Rightarrow> editorConfig outcome" where
  "editorRowDelChar tabs0 i at E =
     andThen (row_at E i) (\<lambda>r.
       if at < 0 \<or> at \<ge> row_size r then Done E
       else
         andThen (editorUpdateRow tabs0
                    (r\<lparr>chars := take (nat at) (chars r) @ drop (nat (at + 1)) (chars r)\<rparr>))
           (\<lambda>r'. Done (E\<lparr>row := (row E)[nat i := r'], dirty := dirty E + 1\<rparr>)))"

section \<open>Editor operations\<close>

text \<open>
  \<open>editorInsertChar\<close>; \<open>tabs0\<close> is for the call through \<open>editorInsertRow\<close>, \<open>tabs1\<close> for the
  one through \<open>editorRowInsertChar\<close>.
\<close>

definition editorInsertChar :: "int \<Rightarrow> int \<Rightarrow> int \<Rightarrow> editorConfig \<Rightarrow> editorConfig outcome" where
  "editorInsertChar tabs0 tabs1 c E =
     andThen (if cy E = numrows E then editorInsertRow tabs0 (numrows E) [] E else Done E) (\<lambda>E1.
       andThen (editorRowInsertChar tabs1 (cy E1) (cx E1) c E1) (\<lambda>E2.
         Done (E2\<lparr>cx := cx E2 + 1\<rparr>)))"

text \<open>
  \<open>editorInsertNewline\<close>. In the second branch the source passes the pointer
  \<open>&row->chars[E.cx]\<close> and the length \<open>row->size - E.cx\<close>, which \<open>editorInsertRow\<close>
  takes as a \<open>size_t\<close>: the bytes copied are \<open>drop cx chars\<close> when \<open>0 \<le> cx \<le> size\<close>,
  and the copy leaves the buffer otherwise. \<open>tabs0\<close> is for the call of \<open>editorUpdateRow\<close>
  through \<open>editorInsertRow\<close>, \<open>tabs1\<close> for the one on the shortened line.
\<close>

definition editorInsertNewline :: "int \<Rightarrow> int \<Rightarrow> editorConfig \<Rightarrow> editorConfig outcome" where
  "editorInsertNewline tabs0 tabs1 E =
     andThen
       (if cx E = 0 then editorInsertRow tabs0 (cy E) [] E
        else andThen (row_at E (cy E)) (\<lambda>r.
          if cx E < 0 \<or> row_size r - cx E < 0 then Fault
          else
            andThen (editorInsertRow tabs0 (cy E + 1) (drop (nat (cx E)) (chars r)) E) (\<lambda>E1.
              andThen (row_at E1 (cy E1)) (\<lambda>r1.
                andThen (editorUpdateRow tabs1 (r1\<lparr>chars := take (nat (cx E1)) (chars r1)\<rparr>))
                  (\<lambda>r1'. Done (E1\<lparr>row := (row E1)[nat (cy E1) := r1']\<rparr>))))))
       (\<lambda>E2. Done (E2\<lparr>cy := cy E2 + 1, cx := 0\<rparr>))"

text \<open>
  \<open>editorDelChar\<close> reaches \<open>editorUpdateRow\<close> once, through \<open>editorRowDelChar\<close> or through
  \<open>editorRowAppendString\<close>.
\<close>

definition editorDelChar :: "int \<Rightarrow> editorConfig \<Rightarrow> editorConfig outcome" where
  "editorDelChar tabs0 E =
     (if cy E = numrows E then Done E
      else if cx E = 0 \<and> cy E = 0 then Done E
      else if cx E > 0 then
        andThen (editorRowDelChar tabs0 (cy E) (cx E - 1) E) (\<lambda>E1.
          Done (E1\<lparr>cx := cx E1 - 1\<rparr>))
      else
        andThen (row_at E (cy E - 1)) (\<lambda>prev.
          let E1 = E\<lparr>cx := row_size prev\<rparr> in
          andThen (row_at E1 (cy E1)) (\<lambda>r.
            andThen (editorRowAppendString tabs0 (cy E1 - 1) (chars r) E1) (\<lambda>E2.
              andThen (editorDelRow (cy E2) E2) (\<lambda>E3.
                Done (E3\<lparr>cy := cy E3 - 1\<rparr>))))))"

section \<open>File i/o\<close>

fun rows_to_string :: "erow list \<Rightarrow> string" where
  "rows_to_string [] = []"
| "rows_to_string (r # rs) = chars r @ [LF] @ rows_to_string rs"

definition editorRowsToString :: "editorConfig \<Rightarrow> string" where
  "editorRowsToString E = rows_to_string (row E)"






section \<open>Status message\<close>

text \<open>
  \<open>editorSetStatusMessage\<close>, given the text its format and arguments produce:
  \<open>vsnprintf\<close> stores at most 79 bytes of it in \<open>E.statusmsg\<close>.
\<close>

definition editorSetStatusMessage :: "string \<Rightarrow> editorConfig \<Rightarrow> editorConfig" where
  "editorSetStatusMessage msg E = E\<lparr>statusmsg := take 79 msg\<rparr>"

text \<open>The conversion \<open>%d\<close>.\<close>

definition digit_char :: "nat \<Rightarrow> char" where
  "digit_char d = char_of (48 + d)"

function show_nat :: "nat \<Rightarrow> string" where
  "show_nat n = (if n < 10 then [digit_char n] else show_nat (n div 10) @ [digit_char (n mod 10)])"
  by pat_completeness auto
termination
  by (relation "measure id") auto

declare show_nat.simps [simp del]

definition show_int :: "int \<Rightarrow> string" where
  "show_int i = (if i < 0 then CHR ''-'' # show_nat (nat (- i)) else show_nat (nat i))"

section \<open>Terminal input\<close>

text \<open>
  What one \<open>read(STDIN_FILENO, &c, 1)\<close> gives in raw mode: a byte (result 1), nothing
  within the timeout (result 0), or \<open>-1\<close> with \<open>errno\<close> either \<open>EAGAIN\<close> or not. The terminal
  is the list of the results of the reads still to come.
\<close>

datatype read_result = Byte char | NoData | ErrAgain | ErrOther

text \<open>
  The value of a \<open>char\<close> as an \<open>int\<close>; \<open>char\<close> is signed, as on x86-64 Linux. (With an
  unsigned \<open>char\<close> the bytes from 128 on would be the keys 128 to 255; they match no
  case label either way, and stored back into a \<open>char\<close> give the same byte.)
\<close>

definition char_to_int :: "char \<Rightarrow> int" where
  "char_to_int c = (if of_char c < (128::int) then of_char c else of_char c - 256)"

text \<open>The loop \<open>while ((nread = read(...)) != 1)\<close>; an error other than \<open>EAGAIN\<close> is \<open>die("read")\<close>.\<close>

fun read_first_byte :: "read_result list \<Rightarrow> (char \<times> read_result list) outcome" where
  "read_first_byte [] = Blocked"
| "read_first_byte (Byte c # rest) = Done (c, rest)"
| "read_first_byte (NoData # rest) = read_first_byte rest"
| "read_first_byte (ErrAgain # rest) = read_first_byte rest"
| "read_first_byte (ErrOther # rest) = Exited 1"

text \<open>One \<open>read(STDIN_FILENO, &seq[i], 1)\<close> after an escape byte; \<open>None\<close> when its result is not 1.\<close>

fun read_seq_byte :: "read_result list \<Rightarrow> (char option \<times> read_result list) outcome" where
  "read_seq_byte [] = Blocked"
| "read_seq_byte (Byte c # rest) = Done (Some c, rest)"
| "read_seq_byte (NoData # rest) = Done (None, rest)"
| "read_seq_byte (ErrAgain # rest) = Done (None, rest)"
| "read_seq_byte (ErrOther # rest) = Done (None, rest)"

definition editorReadKey :: "read_result list \<Rightarrow> (int \<times> read_result list) outcome" where
  "editorReadKey inp =
     andThen (read_first_byte inp) (\<lambda>(c, inp1).
       if c = ESC then
         andThen (read_seq_byte inp1) (\<lambda>(s0, inp2).
           case s0 of
             None \<Rightarrow> Done (char_to_int ESC, inp2)
           | Some seq0 \<Rightarrow>
               andThen (read_seq_byte inp2) (\<lambda>(s1, inp3).
                 case s1 of
                   None \<Rightarrow> Done (char_to_int ESC, inp3)
                 | Some seq1 \<Rightarrow>
                     if seq0 = CHR ''['' then
                       if char_to_int seq1 \<ge> char_to_int CHR ''0''
                          \<and> char_to_int seq1 \<le> char_to_int CHR ''9'' then
                         andThen (read_seq_byte inp3) (\<lambda>(s2, inp4).
                           case s2 of
                             None \<Rightarrow> Done (char_to_int ESC, inp4)
                           | Some seq2 \<Rightarrow>
                               if seq2 = CHR ''~'' then
                                 if seq1 = CHR ''1'' then Done (HOME_KEY, inp4)
                                 else if seq1 = CHR ''3'' then Done (DEL_KEY, inp4)
                                 else if seq1 = CHR ''4'' then Done (END_KEY, inp4)
                                 else if seq1 = CHR ''5'' then Done (PAGE_UP, inp4)
                                 else if seq1 = CHR ''6'' then Done (PAGE_DOWN, inp4)
                                 else if seq1 = CHR ''7'' then Done (HOME_KEY, inp4)
                                 else if seq1 = CHR ''8'' then Done (END_KEY, inp4)
                                 else Done (char_to_int ESC, inp4)
                               else Done (char_to_int ESC, inp4))
                       else
                         if seq1 = CHR ''A'' then Done (ARROW_UP, inp3)
                         else if seq1 = CHR ''B'' then Done (ARROW_DOWN, inp3)
                         else if seq1 = CHR ''C'' then Done (ARROW_RIGHT, inp3)
                         else if seq1 = CHR ''D'' then Done (ARROW_LEFT, inp3)
                         else if seq1 = CHR ''H'' then Done (HOME_KEY, inp3)
                         else if seq1 = CHR ''F'' then Done (END_KEY, inp3)
                         else Done (char_to_int ESC, inp3)
                     else if seq0 = CHR ''O'' then
                       if seq1 = CHR ''H'' then Done (HOME_KEY, inp3)
                       else if seq1 = CHR ''F'' then Done (END_KEY, inp3)
                       else Done (char_to_int ESC, inp3)
                     else Done (char_to_int ESC, inp3)))
       else Done (char_to_int c, inp1))"

section \<open>Output\<close>

definition editorScroll :: "editorConfig \<Rightarrow> editorConfig outcome" where
  "editorScroll E =
     andThen
       (if cy E < numrows E then andThen (row_at E (cy E)) (\<lambda>r. editorRowCxToRx r (cx E))
        else Done 0)
       (\<lambda>rx'.
          let E1 = E\<lparr>rx := rx'\<rparr>;
              E2 = (if cy E1 < rowoff E1 then E1\<lparr>rowoff := cy E1\<rparr> else E1);
              E3 = (if cy E2 \<ge> rowoff E2 + screenrows E2
                    then E2\<lparr>rowoff := cy E2 - screenrows E2 + 1\<rparr> else E2);
              E4 = (if rx E3 < coloff E3 then E3\<lparr>coloff := rx E3\<rparr> else E3);
              E5 = (if rx E4 \<ge> coloff E4 + screencols E4
                    then E4\<lparr>coloff := rx E4 - screencols E4 + 1\<rparr> else E4)
          in Done E5)"

text \<open>
  \<open>abAppend(ab, s, len)\<close>: \<open>len\<close> bytes of \<open>s\<close> are copied to the end of the buffer; a
  negative \<open>len\<close>, or one past the bytes \<open>s\<close> holds, leaves \<open>s\<close>.
\<close>

definition abAppend :: "string \<Rightarrow> string \<Rightarrow> int \<Rightarrow> string outcome" where
  "abAppend ab s len =
     (if len < 0 \<or> len > int (length s) then Fault else Done (ab @ take (nat len) s))"

text \<open>
  The \<open>snprintf\<close> of the status text. Its format \<open>"%.20s - %d lines"\<close> has two conversions
  and the call three arguments: the third, \<open>marker\<close>, is not printed.
\<close>

definition status_format :: "string \<Rightarrow> int \<Rightarrow> string \<Rightarrow> string" where
  "status_format name n marker = take 20 name @ '' - '' @ show_int n @ '' lines''"

definition rstatus_format :: "int \<Rightarrow> int \<Rightarrow> string" where
  "rstatus_format line n = show_int line @ ''/'' @ show_int n"

text \<open>The loop \<open>while (len < E.screencols)\<close> of \<open>editorDrawStatusBar\<close>.\<close>

function status_pad :: "string \<Rightarrow> int \<Rightarrow> int \<Rightarrow> string \<Rightarrow> int \<Rightarrow> string outcome" where
  "status_pad ab len cols rstatus rlen =
     (if len < cols then
        (if cols - len = rlen then abAppend ab rstatus rlen
         else andThen (abAppend ab [SPACE] 1) (\<lambda>ab1. status_pad ab1 (len + 1) cols rstatus rlen))
      else Done ab)"
  by pat_completeness auto
termination
  by (relation "measure (\<lambda>(ab, len, cols, rstatus, rlen). nat (cols - len))") auto

declare status_pad.simps [simp del]

text \<open>
  \<open>editorDrawStatusBar\<close>: the bytes appended to \<open>ab\<close>. \<open>snprintf\<close> returns the length of the
  whole text and stores at most 79 bytes of it.
\<close>

definition editorDrawStatusBar :: "string \<Rightarrow> editorConfig \<Rightarrow> string outcome" where
  "editorDrawStatusBar ab E =
     andThen (abAppend ab (ESC # ''[7m'') 4) (\<lambda>ab1.
       let text = status_format (case filename E of Some f \<Rightarrow> f | None \<Rightarrow> ''[No Name]'')
                    (numrows E) (if dirty E \<noteq> 0 then ''(modified)'' else []);
           status = take 79 text;
           len = int (length text);
           rtext = rstatus_format (cy E + 1) (numrows E);
           rstatus = take 79 rtext;
           rlen = int (length rtext);
           len1 = (if len > screencols E then screencols E else len)
       in
       andThen (abAppend ab1 status len1) (\<lambda>ab2.
         andThen (status_pad ab2 len1 (screencols E) rstatus rlen) (\<lambda>ab3.
           andThen (abAppend ab3 (ESC # ''[m'') 3) (\<lambda>ab4.
             abAppend ab4 [CR, LF] 2))))"

text \<open>
  \<open>editorRefreshScreen\<close>, as far as it changes \<open>E\<close>: the scrolling. The frame it writes to
  the terminal is not part of the state; its status bar row is \<open>editorDrawStatusBar\<close>.
\<close>

definition editorRefreshScreen :: "editorConfig \<Rightarrow> editorConfig outcome" where
  "editorRefreshScreen E = editorScroll E"

section \<open>Input\<close>

text \<open>Every key read takes at least one read from the terminal.\<close>

lemma read_first_byte_shorter:
  "read_first_byte inp = Done (c, rest) \<Longrightarrow> length rest < length inp"
  by (induction inp rule: read_first_byte.induct) (auto simp: less_Suc_eq)

lemma read_seq_byte_shorter:
  "read_seq_byte inp = Done (c, rest) \<Longrightarrow> length rest < length inp"
  by (induction inp rule: read_seq_byte.induct) auto

lemma andThen_Done:
  "andThen m f = Done y \<Longrightarrow> \<exists>x. m = Done x \<and> f x = Done y"
  by (cases m) auto

lemma editorReadKey_shorter:
  assumes "editorReadKey inp = Done (c, rest)"
  shows "length rest < length inp"
proof -
  from assms obtain b inp1 where b: "read_first_byte inp = Done (b, inp1)"
    by (auto simp: editorReadKey_def dest!: andThen_Done)
  have l1: "length inp1 < length inp"
    using b by (rule read_first_byte_shorter)
  show ?thesis
  proof (cases "b = ESC")
    case False
    with assms b have "rest = inp1"
      by (simp add: editorReadKey_def)
    with l1 show ?thesis by simp
  next
    case True
    with assms b obtain s0 inp2 where s0: "read_seq_byte inp1 = Done (s0, inp2)"
      by (auto simp: editorReadKey_def dest!: andThen_Done)
    have l2: "length inp2 < length inp1"
      using s0 by (rule read_seq_byte_shorter)
    show ?thesis
    proof (cases s0)
      case None
      with assms b True s0 have "rest = inp2"
        by (simp add: editorReadKey_def)
      with l1 l2 show ?thesis by simp
    next
      case (Some seq0)
      with assms b True s0 obtain s1 inp3 where s1: "read_seq_byte inp2 = Done (s1, inp3)"
        by (auto simp: editorReadKey_def dest!: andThen_Done)
      have l3: "length inp3 < length inp2"
        using s1 by (rule read_seq_byte_shorter)
      show ?thesis
      proof (cases s1)
        case None
        with assms b True s0 Some s1 have "rest = inp3"
          by (simp add: editorReadKey_def)
        with l1 l2 l3 show ?thesis by simp
      next
        case (Some seq1)
        note S1 = this
        show ?thesis
        proof (cases "seq0 = CHR ''[''
            \<and> char_to_int seq1 \<ge> char_to_int CHR ''0''
            \<and> char_to_int seq1 \<le> char_to_int CHR ''9''")
          case False
          with assms b True s0 \<open>s0 = Some seq0\<close> s1 S1 have "rest = inp3"
            by (auto simp: editorReadKey_def split: if_splits)
          with l1 l2 l3 show ?thesis by simp
        next
          case True
          with assms b \<open>b = ESC\<close> s0 \<open>s0 = Some seq0\<close> s1 S1
          obtain s2 inp4 where s2: "read_seq_byte inp3 = Done (s2, inp4)" and r: "rest = inp4"
            by (auto simp: editorReadKey_def split: if_splits option.splits dest!: andThen_Done)
          have "length inp4 < length inp3"
            using s2 by (rule read_seq_byte_shorter)
          with l1 l2 l3 r show ?thesis by simp
        qed
      qed
    qed
  qed
qed

text \<open>\<open>iscntrl\<close> of the C locale.\<close>

definition iscntrl :: "int \<Rightarrow> bool" where
  "iscntrl c = ((0 \<le> c \<and> c < 32) \<or> c = 127)"

text \<open>
  \<open>editorPrompt\<close>: the loop \<open>while (1)\<close>, with the input typed so far in \<open>buf\<close>. \<open>prompt\<close> is
  the format with its one \<open>%s\<close>, applied to \<open>buf\<close>. The result \<open>None\<close> is the \<open>NULL\<close> returned.
\<close>

function editorPrompt_loop ::
  "(string \<Rightarrow> string) \<Rightarrow> string \<Rightarrow> read_result list \<Rightarrow> editorConfig
    \<Rightarrow> (string option \<times> read_result list \<times> editorConfig) outcome" where
  "editorPrompt_loop prompt buf inp E =
     (case editorRefreshScreen (editorSetStatusMessage (prompt buf) E) of
        Done E1 \<Rightarrow>
          (case editorReadKey inp of
             Done (c, inp1) \<Rightarrow>
               if c = DEL_KEY \<or> c = CTRL_KEY (of_char CHR ''h'') \<or> c = BACKSPACE then
                 (if length buf \<noteq> 0 then editorPrompt_loop prompt (butlast buf) inp1 E1
                  else editorPrompt_loop prompt buf inp1 E1)
               else if c \<noteq> char_to_int ESC then
                 Done (None, inp1, editorSetStatusMessage [] E1)
               else if c = char_to_int CR then
                 (if length buf \<noteq> 0 then Done (Some buf, inp1, editorSetStatusMessage [] E1)
                  else editorPrompt_loop prompt buf inp1 E1)
               else if \<not> iscntrl c \<and> c < 128 then
                 editorPrompt_loop prompt (buf @ [char_of c]) inp1 E1
               else editorPrompt_loop prompt buf inp1 E1
           | Fault \<Rightarrow> Fault
           | Exited n \<Rightarrow> Exited n
           | Blocked \<Rightarrow> Blocked)
      | Fault \<Rightarrow> Fault
      | Exited n \<Rightarrow> Exited n
      | Blocked \<Rightarrow> Blocked)"
  by pat_completeness auto
termination
  by (relation "measure (\<lambda>(prompt, buf, inp, E). length inp)")
    (auto dest: editorReadKey_shorter)

declare editorPrompt_loop.simps [simp del]

definition editorPrompt ::
  "(string \<Rightarrow> string) \<Rightarrow> read_result list \<Rightarrow> editorConfig
    \<Rightarrow> (string option \<times> read_result list \<times> editorConfig) outcome" where
  "editorPrompt prompt inp E = editorPrompt_loop prompt [] inp E"

text \<open>
  What \<open>open\<close>, \<open>ftruncate\<close> and \<open>write\<close> do in \<open>editorSave\<close>, for a file name and the bytes to
  write: the first of them that fails, with the text of \<open>strerror(errno)\<close>, or the whole
  buffer written.
\<close>

datatype store_result =
  OpenFailed string | TruncateFailed string | WriteFailed string | Written

type_synonym file_store = "string \<Rightarrow> string \<Rightarrow> store_result"

text \<open>The format \<open>"Save as: %s"\<close>.\<close>

definition save_as :: "string \<Rightarrow> string" where
  "save_as buf = ''Save as: '' @ buf"

definition cant_save :: "string \<Rightarrow> string" where
  "cant_save err = ''Can'' @ [CHR 0x27] @ ''t save! I/O error: '' @ err"

definition editorSave ::
  "file_store \<Rightarrow> read_result list \<Rightarrow> editorConfig \<Rightarrow> (read_result list \<times> editorConfig) outcome" where
  "editorSave fs inp E =
     andThen
       (case filename E of
          None \<Rightarrow>
            andThen (editorPrompt save_as inp E) (\<lambda>(name, inp1, E1).
              Done (inp1, E1\<lparr>filename := name\<rparr>))
        | Some f \<Rightarrow> Done (inp, E))
       (\<lambda>(inp1, E1).
          case filename E1 of
            None \<Rightarrow> Done (inp1, editorSetStatusMessage ''Save aborted'' E1)
          | Some f \<Rightarrow>
              let buf = editorRowsToString E1; len = int (length buf) in
              (case fs f buf of
                 Written \<Rightarrow>
                   Done (inp1, editorSetStatusMessage (show_int len @ '' bytes written to disk'')
                                 (E1\<lparr>dirty := 0\<rparr>))
               | OpenFailed err \<Rightarrow> Done (inp1, editorSetStatusMessage (cant_save err) E1)
               | TruncateFailed err \<Rightarrow> Done (inp1, editorSetStatusMessage (cant_save err) E1)
               | WriteFailed err \<Rightarrow> Done (inp1, editorSetStatusMessage (cant_save err) E1)))"

text \<open>
  \<open>editorMoveCursor\<close>: the switch, then the snap of \<open>cx\<close> to the length of the line the
  cursor is on. \<open>row\<close> is \<open>NULL\<close> when \<open>cy \<ge> numrows\<close>.
\<close>

definition editorMoveCursor :: "int \<Rightarrow> editorConfig \<Rightarrow> editorConfig outcome" where
  "editorMoveCursor key E =
     andThen
       (if key = ARROW_LEFT then
          (if cx E > 0 then Done (E\<lparr>cx := cx E - 1\<rparr>)
           else if cy E > 0 then
             andThen (row_at E (cy E - 1)) (\<lambda>r. Done (E\<lparr>cy := cy E - 1, cx := row_size r\<rparr>))
           else Done E)
        else if key = ARROW_RIGHT then
          (if cy E \<ge> numrows E then Done E
           else
             andThen (row_at E (cy E)) (\<lambda>r.
               if cx E < row_size r then Done (E\<lparr>cx := cx E + 1\<rparr>)
               else if cx E = row_size r then Done (E\<lparr>cy := cy E + 1, cx := 0\<rparr>)
               else Done E))
        else if key = ARROW_UP then
          (if cy E > 0 then Done (E\<lparr>cy := cy E - 1\<rparr>) else Done E)
        else if key = ARROW_DOWN then
          (if cy E < numrows E then Done (E\<lparr>cy := cy E + 1\<rparr>) else Done E)
        else Done E)
       (\<lambda>E1.
          andThen
            (if cy E1 \<ge> numrows E1 then Done 0
             else andThen (row_at E1 (cy E1)) (\<lambda>r. Done (row_size r)))
            (\<lambda>rowlen. Done (if cx E1 > rowlen then E1\<lparr>cx := rowlen\<rparr> else E1)))"

text \<open>
  The loop \<open>while (times--) editorMoveCursor(...)\<close> of the page keys. A negative \<open>times\<close>
  is never zero on the way down to \<open>INT_MIN\<close>, where \<open>times--\<close> overflows.
\<close>

function page_loop :: "int \<Rightarrow> int \<Rightarrow> editorConfig \<Rightarrow> editorConfig outcome" where
  "page_loop times' key E =
     (if times' = 0 then Done E
      else if times' < 0 then Fault
      else andThen (editorMoveCursor key E) (\<lambda>E1. page_loop (times' - 1) key E1))"
  by pat_completeness auto
termination
  by (relation "measure (\<lambda>(times', key, E). nat times')") auto

declare page_loop.simps [simp del]

text \<open>The block of \<open>case PAGE_UP: case PAGE_DOWN:\<close>, up to its closing brace.\<close>

definition page_block :: "int \<Rightarrow> editorConfig \<Rightarrow> editorConfig outcome" where
  "page_block c E =
     (let E1 =
        (if c = PAGE_UP then E\<lparr>cy := rowoff E\<rparr>
         else if c = PAGE_DOWN then
           (let E' = E\<lparr>cy := rowoff E + screenrows E - 1\<rparr> in
            if cy E' > numrows E' then E'\<lparr>cy := numrows E'\<rparr> else E')
         else E)
      in page_loop (screenrows E1) (if c = PAGE_UP then ARROW_UP else ARROW_DOWN) E1)"

definition quit_warning :: "int \<Rightarrow> string" where
  "quit_warning n =
     ''WARNING!!! File has unsaved changes. Press Ctrl-q '' @ show_int n @ '' more times to quit''"

text \<open>The statement after the switch, reached from every \<open>break\<close>.\<close>

definition after_switch ::
  "(read_result list \<times> editorConfig) outcome \<Rightarrow> (read_result list \<times> editorConfig) outcome" where
  "after_switch r = andThen r (\<lambda>(inp, E). Done (inp, E\<lparr>quit_times := JATE_QUIT_TIMES\<rparr>))"

definition with_input ::
  "read_result list \<Rightarrow> editorConfig outcome \<Rightarrow> (read_result list \<times> editorConfig) outcome" where
  "with_input inp r = andThen r (\<lambda>E. Done (inp, E))"

text \<open>
  \<open>editorProcessKeypress\<close>. The page keys have no \<open>break\<close>: after their block the call
  \<open>editorMoveCursor(c)\<close> of the arrow keys runs. The bytes written to the terminal before
  \<open>exit(0)\<close> are not part of the state. The handler of a key reaches \<open>editorUpdateRow\<close>
  at most twice: \<open>ts\<close> holds the values found in \<open>tabs\<close>, which the handler takes as its
  arguments \<open>tabs0\<close> and \<open>tabs1\<close>.
\<close>

definition editorProcessKeypress ::
  "file_store \<Rightarrow> int \<times> int \<Rightarrow> read_result list \<Rightarrow> editorConfig
    \<Rightarrow> (read_result list \<times> editorConfig) outcome" where
  "editorProcessKeypress fs ts inp E =
     andThen (editorReadKey inp) (\<lambda>(c, inp1).
       if c = char_to_int CR then
         after_switch (with_input inp1 (editorInsertNewline (fst ts) (snd ts) E))
       else if c = CTRL_KEY (of_char CHR ''q'') then
         (if dirty E \<noteq> 0 \<and> quit_times E > 0 then
            Done (inp1, (editorSetStatusMessage (quit_warning (quit_times E)) E)
                          \<lparr>quit_times := quit_times E - 1\<rparr>)
          else Exited 0)
       else if c = CTRL_KEY (of_char CHR ''s'') then
         after_switch (editorSave fs inp1 E)
       else if c = HOME_KEY then
         after_switch (Done (inp1, E\<lparr>cx := 0\<rparr>))
       else if c = END_KEY then
         after_switch (with_input inp1
           (if cy E < numrows E then
              andThen (row_at E (cy E)) (\<lambda>r. Done (E\<lparr>cx := row_size r\<rparr>))
            else Done E))
       else if c = BACKSPACE \<or> c = CTRL_KEY (of_char CHR ''h'') \<or> c = DEL_KEY then
         after_switch (with_input inp1
           (andThen (if c = DEL_KEY then editorMoveCursor ARROW_RIGHT E else Done E)
              (editorDelChar (fst ts))))
       else if c = PAGE_UP \<or> c = PAGE_DOWN then
         after_switch (with_input inp1 (andThen (page_block c E) (editorMoveCursor c)))
       else if c = ARROW_UP \<or> c = ARROW_DOWN \<or> c = ARROW_LEFT \<or> c = ARROW_RIGHT then
         after_switch (with_input inp1 (editorMoveCursor c E))
       else if c = CTRL_KEY (of_char CHR ''l'') \<or> c = char_to_int ESC then
         after_switch (Done (inp1, E))
       else
         after_switch (with_input inp1 (editorInsertChar (fst ts) (snd ts) c E)))"

text \<open>
  The body of the loop of \<open>main\<close>, run \<open>n\<close> times: \<open>editorRefreshScreen\<close>, then
  \<open>editorProcessKeypress\<close>. \<open>tss k\<close> holds the values found in \<open>tabs\<close> while the key that
  \<open>k\<close> more keys follow is processed.
\<close>

fun main_loop ::
  "nat \<Rightarrow> file_store \<Rightarrow> (nat \<Rightarrow> int \<times> int) \<Rightarrow> read_result list \<Rightarrow> editorConfig
    \<Rightarrow> (read_result list \<times> editorConfig) outcome" where
  "main_loop 0 fs tss inp E = Done (inp, E)"
| "main_loop (Suc n) fs tss inp E =
     andThen (editorRefreshScreen E) (\<lambda>E1.
       andThen (editorProcessKeypress fs (tss n) inp E1) (\<lambda>(inp2, E2). main_loop n fs tss inp2 E2))"

text \<open>\<open>initEditor\<close>, for a window of the given size.\<close>

definition initEditor :: "int \<Rightarrow> int \<Rightarrow> editorConfig" where
  "initEditor rows cols =
     \<lparr>cx = 0, cy = 0, rx = 0, rowoff = 0, coloff = 0,
      screenrows = rows - 2, screencols = cols,
      row = [], dirty = 0, filename = None, statusmsg = [],
      quit_times = JATE_QUIT_TIMES\<rparr>"

section \<open>Notions used in the statements\<close>



text \<open>
  \<open>E'\<close> with its status message and its view (\<open>rx\<close>, \<open>rowoff\<close>, \<open>coloff\<close>) set back to
  those of \<open>E\<close>: when the result is \<open>E\<close>, the two states differ in nothing else.
\<close>

definition view_reset :: "editorConfig \<Rightarrow> editorConfig \<Rightarrow> editorConfig" where
  "view_reset E E' =
     E'\<lparr>statusmsg := statusmsg E, rx := rx E, rowoff := rowoff E, coloff := coloff E\<rparr>"


text \<open>The last three statements of \<open>editorMoveCursor\<close>: \<open>cx\<close> snaps to the length of the line.\<close>

definition snap_cx :: "editorConfig \<Rightarrow> editorConfig outcome" where
  "snap_cx E1 =
     andThen
       (if cy E1 \<ge> numrows E1 then Done 0
        else andThen (row_at E1 (cy E1)) (\<lambda>r. Done (row_size r)))
       (\<lambda>rowlen. Done (if cx E1 > rowlen then E1\<lparr>cx := rowlen\<rparr> else E1))"

text \<open>
  The line with its rendering made anew from its content: what \<open>editorUpdateRow\<close> leaves
  in the line when it returns.
\<close>

definition rendered :: "erow \<Rightarrow> erow" where
  "rendered r = r\<lparr>render := render_loop (chars r) []\<rparr>"

text \<open>
  The value \<open>t\<close> found in \<open>tabs\<close> is one that a counter started at zero or above could
  hold, and the buffer size computed from it for the content \<open>cs\<close> stays an \<open>int\<close>.
\<close>

definition tabs_fit :: "int \<Rightarrow> string \<Rightarrow> bool" where
  "tabs_fit t cs =
     (0 \<le> t \<and> int (length cs) + count_tabs cs t * (JATE_TABSTOP - 1) + 1 \<le> INT_MAX)"

text \<open>
  The tab expansion in the words of the specification, from the rendered column \<open>col\<close>
  on: a tab becomes the spaces up to the next multiple of 8 rendered columns, any other
  character itself.
\<close>

fun tab_expansion :: "nat \<Rightarrow> string \<Rightarrow> string" where
  "tab_expansion col [] = []"
| "tab_expansion col (c # cs) =
     (if c = TAB then replicate (8 - col mod 8) SPACE @ tab_expansion (col + (8 - col mod 8)) cs
      else c # tab_expansion (Suc col) cs)"

text \<open>The two texts \<open>editorDrawStatusBar\<close> formats: the calls of \<open>snprintf\<close> with their arguments.\<close>

definition status_left :: "editorConfig \<Rightarrow> string" where
  "status_left E =
     status_format (case filename E of Some f \<Rightarrow> f | None \<Rightarrow> ''[No Name]'')
       (numrows E) (if dirty E \<noteq> 0 then ''(modified)'' else [])"

definition status_right :: "editorConfig \<Rightarrow> string" where
  "status_right E = rstatus_format (cy E + 1) (numrows E)"

section \<open>Example states\<close>

definition example_doc :: editorConfig where
  "example_doc =
     (initEditor 24 80)\<lparr>row := [\<lparr>chars = ''hello'', render = ''hello''\<rparr>], cx := 2\<rparr>"

definition failing_store :: file_store where
  "failing_store name buf = OpenFailed ''Permission denied''"

definition named_doc :: editorConfig where
  "named_doc = example_doc\<lparr>filename := Some ''t.txt'', dirty := 5\<rparr>"

text \<open>The bytes the terminal sends for Ctrl-Q and for Ctrl-L.\<close>

definition CTRL_Q :: char where
  "CTRL_Q = CHR 0x11"

definition CTRL_L :: char where
  "CTRL_L = CHR 0x0C"


definition tabs_zero_keys :: "nat \<Rightarrow> int \<times> int" where
  "tabs_zero_keys k = (0, 0)"

definition four_lines :: editorConfig where
  "four_lines =
     (initEditor 5 80)
       \<lparr>row := [\<lparr>chars = ''hello'', render = ''hello''\<rparr>, \<lparr>chars = ''hi'', render = ''hi''\<rparr>,
                \<lparr>chars = ''a'', render = ''a''\<rparr>, \<lparr>chars = ''b'', render = ''b''\<rparr>],
         cx := 4\<rparr>"

definition page_down_bytes :: "read_result list" where
  "page_down_bytes = [Byte ESC, Byte CHR ''['', Byte CHR ''6'', Byte CHR ''~'']"

section \<open>Tab expansion\<close>

lemma pad_arith:
  "(n::nat) mod 8 \<noteq> 0 \<Longrightarrow> Suc ((8 - Suc n mod 8) mod 8) = (8 - n mod 8) mod 8"
proof -
  assume a: "n mod 8 \<noteq> 0"
  define k where "k = n mod 8"
  from a have k: "0 < k" "k < 8"
    by (simp_all add: k_def)
  have "Suc n mod 8 = (if Suc k = 8 then 0 else Suc k)"
    by (simp add: mod_Suc k_def)
  then show ?thesis
    using k unfolding k_def [symmetric] by (auto split: if_splits)
qed

lemma int_mod8_iff: "(int n mod JATE_TABSTOP \<noteq> 0) = (n mod 8 \<noteq> 0)"
proof -
  have "int n mod 8 = int (n mod 8)"
    by (simp add: zmod_int)
  then show ?thesis
    by (simp add: JATE_TABSTOP_def)
qed

lemma pad_to_tabstop_eq:
  "pad_to_tabstop out = out @ replicate ((8 - length out mod 8) mod 8) SPACE"
proof (induction out rule: pad_to_tabstop.induct)
  case (1 out)
  show ?case
  proof (cases "length out mod 8 = 0")
    case True
    then show ?thesis
      by (subst pad_to_tabstop.simps) (simp add: int_mod8_iff)
  next
    case False
    then have c: "int (length out) mod JATE_TABSTOP \<noteq> 0"
      by (simp add: int_mod8_iff)
    have "pad_to_tabstop out = pad_to_tabstop (out @ [SPACE])"
      using c by (subst pad_to_tabstop.simps) simp
    also have "\<dots> = (out @ [SPACE]) @ replicate ((8 - Suc (length out) mod 8) mod 8) SPACE"
      using "1.IH" [OF c] by simp
    also have "\<dots> = out @ replicate (Suc ((8 - Suc (length out) mod 8) mod 8)) SPACE"
      by simp
    also have "\<dots> = out @ replicate ((8 - length out mod 8) mod 8) SPACE"
      using pad_arith [OF False] by simp
    finally show ?thesis .
  qed
qed

lemma pad_after_space:
  "pad_to_tabstop (out @ [SPACE]) = out @ replicate (8 - length out mod 8) SPACE"
proof -
  define k where "k = length out mod 8"
  have k: "k < 8" by (simp add: k_def)
  have s: "Suc (length out) mod 8 = (if Suc k = 8 then 0 else Suc k)"
    by (simp add: mod_Suc k_def)
  have "Suc ((8 - Suc (length out) mod 8) mod 8) = 8 - k"
    using k unfolding s by (auto split: if_splits)
  then have "replicate (8 - k) SPACE = SPACE # replicate ((8 - Suc (length out) mod 8) mod 8) SPACE"
    by (metis replicate_Suc)
  then show ?thesis
    by (simp add: pad_to_tabstop_eq k_def)
qed

lemma render_loop_append:
  "render_loop (xs @ ys) out = render_loop ys (render_loop xs out)"
  by (induction xs arbitrary: out) auto

lemma render_loop_snoc:
  "render_loop (p @ [c]) out =
     (if c = TAB then render_loop p out @ replicate (8 - length (render_loop p out) mod 8) SPACE
      else render_loop p out @ [c])"
  by (simp add: render_loop_append pad_after_space)

lemma rx_step:
  "(if c = TAB then int (length r) + ((JATE_TABSTOP - 1) - (int (length r) mod JATE_TABSTOP))
    else int (length r)) + 1
     = int (length (if c = TAB then r @ replicate (8 - length r mod 8) SPACE else r @ [c]))"
proof -
  have m: "int (length r) mod 8 = int (length r mod 8)"
    by (simp add: zmod_int)
  have le: "length r mod 8 \<le> 8"
    by simp
  show ?thesis
    using le by (simp add: JATE_TABSTOP_def m of_nat_diff)
qed

lemma cx_to_rx_loop_render:
  assumes "0 \<le> j" and "j \<le> cx'" and "cx' \<le> int (length cs)"
    and "rx' = int (length (render_loop (take (nat j) cs) []))"
  shows "cx_to_rx_loop cs cx' j rx' = Done (int (length (render_loop (take (nat cx') cs) [])))"
  using assms
proof (induction "nat (cx' - j)" arbitrary: j rx')
  case 0
  then have "j = cx'" by simp
  with 0 show ?case
    by (subst cx_to_rx_loop.simps) simp
next
  case (Suc n)
  then have lt: "j < cx'" by simp
  with Suc.prems have inb: "nat j < length cs" by simp
  have rd: "char_at cs j = Done (cs ! nat j)"
    using Suc.prems lt by (simp add: char_at_def)
  have tk: "take (nat (j + 1)) cs = take (nat j) cs @ [cs ! nat j]"
    using Suc.prems inb by (simp add: nat_add_distrib take_Suc_conv_app_nth)
  let ?c = "cs ! nat j"
  let ?rx = "(if ?c = TAB then rx' + ((JATE_TABSTOP - 1) - (rx' mod JATE_TABSTOP)) else rx') + 1"
  have nx: "?rx = int (length (render_loop (take (nat (j + 1)) cs) []))"
    unfolding tk render_loop_snoc Suc.prems(4) by (rule rx_step)
  have "cx_to_rx_loop cs cx' j rx' = cx_to_rx_loop cs cx' (j + 1) ?rx"
    using lt rd by (subst cx_to_rx_loop.simps) simp
  also have "\<dots> = Done (int (length (render_loop (take (nat cx') cs) [])))"
  proof (rule Suc.hyps(1))
    show "n = nat (cx' - (j + 1))" using Suc.hyps(2) by simp
    show "0 \<le> j + 1" using Suc.prems by simp
    show "j + 1 \<le> cx'" using lt by simp
    show "cx' \<le> int (length cs)" using Suc.prems by simp
    show "?rx = int (length (render_loop (take (nat (j + 1)) cs) []))" by (rule nx)
  qed
  finally show ?case .
qed

lemma editorRowCxToRx_render:
  assumes "0 \<le> cx'" and "cx' \<le> row_size r"
  shows "editorRowCxToRx r cx' = Done (int (length (render_loop (take (nat cx') (chars r)) [])))"
  unfolding editorRowCxToRx_def
  using assms by (intro cx_to_rx_loop_render) (simp_all add: row_size_def)

lemma next_tabstop: "((n::nat) + 8 - n mod 8) mod 8 = 0"
proof -
  have "n mod 8 \<le> 8" by simp
  then have "n + 8 - n mod 8 = (n - n mod 8) + 8"
    by (simp add: mod_le_divisor)
  also have "\<dots> = 8 * (n div 8) + 8"
    by (simp add: minus_mod_eq_mult_div)
  finally show ?thesis by simp
qed

lemma render_loop_expansion:
  "render_loop cs out = out @ tab_expansion (length out) cs"
proof (induction cs arbitrary: out)
  case Nil
  show ?case by simp
next
  case (Cons c cs)
  show ?case
  proof (cases "c = TAB")
    case True
    have "render_loop (c # cs) out = render_loop cs (out @ replicate (8 - length out mod 8) SPACE)"
      using True by (simp add: pad_after_space)
    also have "\<dots> = (out @ replicate (8 - length out mod 8) SPACE)
                     @ tab_expansion (length out + (8 - length out mod 8)) cs"
      by (simp add: Cons.IH)
    finally show ?thesis
      using True by simp
  next
    case False
    then show ?thesis
      by (simp add: Cons.IH)
  qed
qed

lemma tab_expansion_snoc:
  "tab_expansion 0 (p @ [c]) =
     (if c = TAB then tab_expansion 0 p @ replicate (8 - length (tab_expansion 0 p) mod 8) SPACE
      else tab_expansion 0 p @ [c])"
proof -
  have e: "\<And>cs. tab_expansion 0 cs = render_loop cs []"
    by (simp add: render_loop_expansion)
  show ?thesis
    unfolding e by (rule render_loop_snoc)
qed

lemma count_tabs_shift: "count_tabs cs t = t + count_tabs cs 0"
proof (induction cs arbitrary: t)
  case Nil
  show ?case by simp
next
  case (Cons c cs)
  have a: "count_tabs cs (t + 1) = t + 1 + count_tabs cs 0"
    by (rule Cons.IH)
  have b: "count_tabs cs 1 = 1 + count_tabs cs 0"
    by (rule Cons.IH)
  have c: "count_tabs cs t = t + count_tabs cs 0"
    by (rule Cons.IH)
  show ?case
    using a b c by simp
qed

lemma count_tabs_nonneg: "0 \<le> count_tabs cs 0"
proof (induction cs)
  case Nil
  show ?case by simp
next
  case (Cons c cs)
  have "count_tabs cs 1 = 1 + count_tabs cs 0"
    by (rule count_tabs_shift)
  with Cons show ?case
    by simp
qed

lemma render_loop_length:
  "int (length out) + int (length cs) \<le> int (length (render_loop cs out))
   \<and> int (length (render_loop cs out)) \<le> int (length out) + int (length cs) + 7 * count_tabs cs 0"
proof (induction cs arbitrary: out)
  case Nil
  show ?case by simp
next
  case (Cons c cs)
  show ?case
  proof (cases "c = TAB")
    case True
    define k where "k = 8 - length out mod 8"
    have k: "1 \<le> k" "k \<le> 8"
      by (simp_all add: k_def Suc_leI)
    define out' where "out' = out @ replicate k SPACE"
    have r: "render_loop (c # cs) out = render_loop cs out'"
      using True by (simp add: pad_after_space out'_def k_def)
    have l: "int (length out') = int (length out) + int k"
      by (simp add: out'_def)
    have t: "count_tabs (c # cs) 0 = 1 + count_tabs cs 0"
      using True count_tabs_shift [of cs 1] by simp
    from Cons.IH [of out'] k show ?thesis
      unfolding r l t by simp
  next
    case False
    have r: "render_loop (c # cs) out = render_loop cs (out @ [c])"
      using False by simp
    have t: "count_tabs (c # cs) 0 = count_tabs cs 0"
      using False by simp
    from Cons.IH [of "out @ [c]"] show ?thesis
      unfolding r t by simp
  qed
qed

lemma editorUpdateRow_fits:
  assumes "tabs_fit t (chars r)"
  shows "editorUpdateRow t r = Done (rendered r)"
proof -
  have s: "count_tabs (chars r) t = t + count_tabs (chars r) 0"
    by (rule count_tabs_shift)
  from render_loop_length [of "[]" "chars r"]
  have "int (length (render_loop (chars r) [])) \<le> int (length (chars r)) + 7 * count_tabs (chars r) 0"
    by simp
  with assms show ?thesis
    unfolding editorUpdateRow_def rendered_def tabs_fit_def Let_def row_size_def s
    by (simp add: JATE_TABSTOP_def)
qed

lemma editorUpdateRow_negative:
  assumes "count_tabs (chars r) t < 0"
  shows "editorUpdateRow t r = Fault"
proof -
  from render_loop_length [of "[]" "chars r"]
  have "int (length (chars r)) \<le> int (length (render_loop (chars r) []))"
    by simp
  with assms show ?thesis
    unfolding editorUpdateRow_def Let_def row_size_def
    by (simp add: JATE_TABSTOP_def)
qed

lemma editorUpdateRow_Done:
  "editorUpdateRow t r = Done r' \<Longrightarrow> r' = rendered r"
  by (simp add: editorUpdateRow_def rendered_def Let_def split: if_splits)

text \<open>
  Claim C6. \<open>editorUpdateRow\<close> counts the tabs of the line in a variable it never
  initialises, and sizes the buffer of the rendering from that count. When the value it
  finds there is zero or above (and the size stays an \<open>int\<close>) it returns, and the
  rendering is the tab expansion of the content and of nothing else: a tab appends spaces
  up to the next multiple of 8 rendered columns, any other character appends itself.
  When the value found and the tabs of the line sum below zero, the rendering is written
  outside its buffer. Whenever the call returns, the line it leaves is that expansion.
  In general the call returns exactly when the size computed from the value found is an
  \<open>int\<close> and holds the expansion and its closing NUL.
  For a character index \<open>cx\<close> within the line, \<open>editorRowCxToRx\<close> returns the length of
  the expansion of the first \<open>cx\<close> characters.
\<close>

theorem rendered_is_tab_expansion:
  "(tabs_fit t (chars r) \<longrightarrow>
      editorUpdateRow t r = Done (r\<lparr>render := tab_expansion 0 (chars r)\<rparr>))
   \<and> (count_tabs (chars r) t < 0 \<longrightarrow> editorUpdateRow t r = Fault)
   \<and> (editorUpdateRow t r = Done r' \<longrightarrow> r' = r\<lparr>render := tab_expansion 0 (chars r)\<rparr>)
   \<and> editorUpdateRow t r =
       (let room = row_size r + count_tabs (chars r) t * 7 + 1 in
        if room \<le> INT_MAX \<and> int (length (tab_expansion 0 (chars r))) + 1 \<le> room
        then Done (r\<lparr>render := tab_expansion 0 (chars r)\<rparr>) else Fault)
   \<and> tab_expansion 0 (p @ [c]) =
       (if c = TAB
        then tab_expansion 0 p @ replicate (8 - length (tab_expansion 0 p) mod 8) SPACE
        else tab_expansion 0 p @ [c])
   \<and> length (tab_expansion 0 (p @ [TAB])) mod 8 = 0
   \<and> (0 \<le> cx' \<and> cx' \<le> row_size r \<longrightarrow>
        editorRowCxToRx r cx' =
          Done (int (length (tab_expansion 0 (take (nat cx') (chars r))))))"
proof (intro conjI impI)
  have e: "\<And>cs. render_loop cs [] = tab_expansion 0 cs"
    by (simp add: render_loop_expansion)
  have rd: "rendered r = r\<lparr>render := tab_expansion 0 (chars r)\<rparr>"
    by (simp add: rendered_def e)
  show "editorUpdateRow t r = Done (r\<lparr>render := tab_expansion 0 (chars r)\<rparr>)"
    if "tabs_fit t (chars r)"
    using editorUpdateRow_fits [OF that] rd by simp
  show "editorUpdateRow t r = Fault" if "count_tabs (chars r) t < 0"
    using that by (rule editorUpdateRow_negative)
  show "r' = r\<lparr>render := tab_expansion 0 (chars r)\<rparr>" if "editorUpdateRow t r = Done r'"
    using editorUpdateRow_Done [OF that] rd by simp
  show "editorUpdateRow t r =
       (let room = row_size r + count_tabs (chars r) t * 7 + 1 in
        if room \<le> INT_MAX \<and> int (length (tab_expansion 0 (chars r))) + 1 \<le> room
        then Done (r\<lparr>render := tab_expansion 0 (chars r)\<rparr>) else Fault)"
    by (simp add: editorUpdateRow_def Let_def e JATE_TABSTOP_def)
  show "tab_expansion 0 (p @ [c]) =
       (if c = TAB
        then tab_expansion 0 p @ replicate (8 - length (tab_expansion 0 p) mod 8) SPACE
        else tab_expansion 0 p @ [c])"
    by (rule tab_expansion_snoc)
  show "length (tab_expansion 0 (p @ [TAB])) mod 8 = 0"
    by (simp add: tab_expansion_snoc next_tabstop)
  show "editorRowCxToRx r cx' =
          Done (int (length (tab_expansion 0 (take (nat cx') (chars r)))))"
    if "0 \<le> cx' \<and> cx' \<le> row_size r"
    using that by (simp add: editorRowCxToRx_render e)
qed

theorem rendered_is_tab_expansion_witness:
  "tabs_fit 0 [CHR ''a'', TAB, CHR ''b'']
   \<and> editorUpdateRow 0 \<lparr>chars = [CHR ''a'', TAB, CHR ''b''], render = []\<rparr>
       = Done \<lparr>chars = [CHR ''a'', TAB, CHR ''b''],
               render = CHR ''a'' # replicate 7 SPACE @ [CHR ''b'']\<rparr>
   \<and> count_tabs [CHR ''a''] (- 1) < 0
   \<and> editorUpdateRow (- 1) \<lparr>chars = [CHR ''a''], render = []\<rparr> = Fault
   \<and> editorUpdateRow (- 1) \<lparr>chars = ''abcdef'' @ [TAB], render = []\<rparr> = Fault
   \<and> editorUpdateRow (- 1) \<lparr>chars = ''abcdefg'' @ [TAB], render = []\<rparr>
       = Done \<lparr>chars = ''abcdefg'' @ [TAB], render = ''abcdefg'' @ [SPACE]\<rparr>
   \<and> (0::int) \<le> 2
   \<and> 2 \<le> row_size \<lparr>chars = [CHR ''a'', TAB, CHR ''b''], render = []\<rparr>
   \<and> editorRowCxToRx \<lparr>chars = [CHR ''a'', TAB, CHR ''b''], render = []\<rparr> 2 = Done 8"
proof -
  let ?r = "\<lparr>chars = [CHR ''a'', TAB, CHR ''b''], render = []\<rparr>"
  let ?s = "\<lparr>chars = [CHR ''a''], render = []\<rparr>"
  have ab: "CHR ''a'' \<noteq> TAB" "CHR ''b'' \<noteq> TAB"
    by (simp_all add: TAB_def)
  have f: "tabs_fit 0 (chars ?r)"
    using ab by (simp add: tabs_fit_def INT_MAX_def JATE_TABSTOP_def)
  have n: "count_tabs (chars ?s) (- 1) < 0"
    using ab by simp
  have h: "(0::int) \<le> 2 \<and> 2 \<le> row_size ?r"
    by (simp add: row_size_def)
  have x: "tab_expansion 0 (chars ?r) = CHR ''a'' # replicate 7 SPACE @ [CHR ''b'']"
    using ab by simp
  have y: "tab_expansion 0 (take (nat 2) (chars ?r)) = CHR ''a'' # replicate 7 SPACE"
    using ab by simp
  from rendered_is_tab_expansion [where t = 0 and r = ?r, THEN conjunct1] f x
  have c1: "editorUpdateRow 0 ?r
       = Done \<lparr>chars = [CHR ''a'', TAB, CHR ''b''],
               render = CHR ''a'' # replicate 7 SPACE @ [CHR ''b'']\<rparr>"
    by simp
  from rendered_is_tab_expansion [where t = "- 1" and r = ?s, THEN conjunct2, THEN conjunct1] n
  have c2: "editorUpdateRow (- 1) ?s = Fault"
    by simp
  from rendered_is_tab_expansion [where r = ?r and cx' = 2, THEN conjunct2, THEN conjunct2,
      THEN conjunct2, THEN conjunct2, THEN conjunct2, THEN conjunct2] h y
  have c3: "editorRowCxToRx ?r 2 = Done 8"
    by simp
  have lt: "CHR ''a'' \<noteq> TAB" "CHR ''b'' \<noteq> TAB" "CHR ''c'' \<noteq> TAB" "CHR ''d'' \<noteq> TAB"
    "CHR ''e'' \<noteq> TAB" "CHR ''f'' \<noteq> TAB" "CHR ''g'' \<noteq> TAB"
    by (simp_all add: TAB_def)
  from rendered_is_tab_expansion [where t = "- 1"
      and r = "\<lparr>chars = ''abcdef'' @ [TAB], render = []\<rparr>",
      THEN conjunct2, THEN conjunct2, THEN conjunct2, THEN conjunct1]
  have c4: "editorUpdateRow (- 1) \<lparr>chars = ''abcdef'' @ [TAB], render = []\<rparr> = Fault"
    using lt by (simp add: Let_def row_size_def INT_MAX_def)
  from rendered_is_tab_expansion [where t = "- 1"
      and r = "\<lparr>chars = ''abcdefg'' @ [TAB], render = []\<rparr>",
      THEN conjunct2, THEN conjunct2, THEN conjunct2, THEN conjunct1]
  have c5: "editorUpdateRow (- 1) \<lparr>chars = ''abcdefg'' @ [TAB], render = []\<rparr>
       = Done \<lparr>chars = ''abcdefg'' @ [TAB], render = ''abcdefg'' @ [SPACE]\<rparr>"
    using lt by (simp add: Let_def row_size_def INT_MAX_def)
  show ?thesis
    using f n h c1 c2 c3 c4 c5 by (simp only: simp_thms erow.simps)
qed

section \<open>Inserting and deleting lines\<close>

text \<open>
  Claim C7. \<open>editorDelRow\<close> accepts \<open>at = numrows\<close>, as \<open>editorInsertRow\<close> does, and then
  reads the line \<open>E.row[numrows]\<close>, which does not exist: for every document, deleting at
  \<open>numrows\<close> is a read outside the lines of the document.
\<close>

theorem editorDelRow_at_numrows:
  "editorDelRow (numrows E) E = Fault"
  by (simp add: editorDelRow_def row_at_def numrows_def)

lemma row_at_in_range:
  "0 \<le> i \<Longrightarrow> i < numrows E \<Longrightarrow> row_at E i = Done (row E ! nat i)"
  by (simp add: row_at_def)

lemma rendered_eq:
  "rendered r = \<lparr>chars = chars r, render = render_loop (chars r) []\<rparr>"
  by (simp add: rendered_def)

lemma split_join_rows_first:
  assumes i: "i < length rows"
  shows "take (Suc i) ((take i rows @ [a] @ drop i rows)[i := b])
         @ take (length rows - i - 1) (drop (Suc (Suc i)) ((take i rows @ [a] @ drop i rows)[i := b]))
       = rows[i := b]"
proof -
  have l: "length (take i rows) = i"
    using i by simp
  have u: "(take i rows @ [a] @ drop i rows)[i := b] = take i rows @ [b] @ drop i rows"
    using l by (simp add: list_update_append)
  have t: "take (Suc i) (take i rows @ [b] @ drop i rows) = take i rows @ [b]"
    using l by simp
  have d: "drop (Suc (Suc i)) (take i rows @ [b] @ drop i rows) = drop (Suc i) rows"
    using l i by (simp add: drop_Suc tl_drop)
  have "rows[i := b] = take i rows @ [b] @ drop (Suc i) rows"
    using i by (simp add: upd_conv_take_nth_drop)
  then show ?thesis
    unfolding u t d by simp
qed

lemma split_join_rows_second:
  assumes i: "i < length rows"
  shows "take (Suc i) (((take (Suc i) rows @ [a] @ drop (Suc i) rows)[i := b])[i := c])
         @ take (length rows - i - 1)
             (drop (Suc (Suc i)) (((take (Suc i) rows @ [a] @ drop (Suc i) rows)[i := b])[i := c]))
       = rows[i := c]"
proof -
  have l: "length (take (Suc i) rows) = Suc i"
    using i by simp
  have r: "rows[i := c] = take i rows @ [c] @ drop (Suc i) rows"
    using i by (simp add: upd_conv_take_nth_drop)
  have e: "(take (Suc i) rows)[i := c] = take i rows @ [c]"
    using i by (simp add: take_Suc_conv_app_nth list_update_append)
  have u: "((take (Suc i) rows @ [a] @ drop (Suc i) rows)[i := b])[i := c]
           = (take i rows @ [c]) @ [a] @ drop (Suc i) rows"
    using l e by (simp add: list_update_append)
  have l': "length (take i rows @ [c]) = Suc i"
    using i by simp
  have t: "take (Suc i) ((take i rows @ [c]) @ [a] @ drop (Suc i) rows) = take i rows @ [c]"
    using i by simp
  have d: "drop (Suc (Suc i)) ((take i rows @ [c]) @ [a] @ drop (Suc i) rows)
           = drop (Suc i) rows"
    using l' by (simp add: drop_append)
  show ?thesis
    unfolding u t d r by simp
qed

lemma count_tabs_append: "count_tabs (xs @ ys) 0 = count_tabs xs 0 + count_tabs ys 0"
proof (induction xs)
  case Nil
  show ?case by simp
next
  case (Cons c xs)
  have "count_tabs (xs @ ys) 1 = 1 + count_tabs (xs @ ys) 0" "count_tabs xs 1 = 1 + count_tabs xs 0"
    by (rule count_tabs_shift)+
  with Cons show ?case
    by simp
qed

lemma tabs_fit_part:
  assumes "tabs_fit t (xs @ ys @ zs)"
  shows "tabs_fit t ys"
proof -
  have "count_tabs (xs @ ys @ zs) 0 = count_tabs xs 0 + count_tabs ys 0 + count_tabs zs 0"
    by (simp add: count_tabs_append)
  moreover have "0 \<le> count_tabs xs 0" "0 \<le> count_tabs zs 0"
    by (rule count_tabs_nonneg)+
  moreover have "count_tabs (xs @ ys @ zs) t = t + count_tabs (xs @ ys @ zs) 0"
    "count_tabs ys t = t + count_tabs ys 0"
    by (rule count_tabs_shift)+
  ultimately show ?thesis
    using assms unfolding tabs_fit_def by (simp add: JATE_TABSTOP_def)
qed

lemma tabs_fit_take: "tabs_fit t cs \<Longrightarrow> tabs_fit t (take n cs)"
  using tabs_fit_part [of t "[]" "take n cs" "drop n cs"] by simp

lemma tabs_fit_drop: "tabs_fit t cs \<Longrightarrow> tabs_fit t (drop n cs)"
  using tabs_fit_part [of t "take n cs" "drop n cs" "[]"] by simp

lemma tabs_fit_empty: "tabs_fit t cs \<Longrightarrow> tabs_fit t []"
  using tabs_fit_part [of t "[]" "[]" cs] by simp

lemma count_tabs_part:
  "count_tabs ys t \<le> count_tabs (xs @ ys @ zs) t"
proof -
  have "count_tabs (xs @ ys @ zs) 0 = count_tabs xs 0 + count_tabs ys 0 + count_tabs zs 0"
    by (simp add: count_tabs_append)
  moreover have "0 \<le> count_tabs xs 0" "0 \<le> count_tabs zs 0"
    by (rule count_tabs_nonneg)+
  moreover have "count_tabs (xs @ ys @ zs) t = t + count_tabs (xs @ ys @ zs) 0"
    "count_tabs ys t = t + count_tabs ys 0"
    by (rule count_tabs_shift)+
  ultimately show ?thesis
    by simp
qed

lemma editorInsertRow_fits:
  assumes "0 \<le> at" and "at \<le> numrows E" and "tabs_fit t s"
  shows "editorInsertRow t at s E =
           Done (E\<lparr>row := take (nat at) (row E) @ [rendered \<lparr>chars = s, render = []\<rparr>]
                            @ drop (nat at) (row E),
                    dirty := dirty E + 1\<rparr>)"
  using assms by (simp add: editorInsertRow_def editorUpdateRow_fits)

lemma editorInsertRow_negative:
  assumes "0 \<le> at" and "at \<le> numrows E" and "count_tabs s t < 0"
  shows "editorInsertRow t at s E = Fault"
  using assms by (simp add: editorInsertRow_def editorUpdateRow_negative)

lemma newline_at_line_start:
  assumes cy0: "0 \<le> cy E" and cy1: "cy E < numrows E" and cx0: "cx E = 0"
    and f1: "tabs_fit t1 []"
  shows "editorInsertNewline t1 t2 E =
           Done (E\<lparr>row := take (nat (cy E)) (row E)
                          @ [rendered \<lparr>chars = [], render = []\<rparr>]
                          @ drop (nat (cy E)) (row E),
                  dirty := dirty E + 1, cy := cy E + 1, cx := 0\<rparr>)"
  using cy0 cy1 cx0 by (simp add: editorInsertNewline_def editorInsertRow_fits [OF _ _ f1])

lemma newline_inside_line:
  assumes cy0: "0 \<le> cy E" and cy1: "cy E < numrows E"
    and cx0: "0 < cx E" and cx1: "cx E \<le> row_size (row E ! nat (cy E))"
    and f1: "tabs_fit t1 (drop (nat (cx E)) (chars (row E ! nat (cy E))))"
    and f2: "tabs_fit t2 (take (nat (cx E)) (chars (row E ! nat (cy E))))"
  shows "editorInsertNewline t1 t2 E =
           Done (E\<lparr>row := (take (Suc (nat (cy E))) (row E)
                          @ [rendered
                               \<lparr>chars = drop (nat (cx E)) (chars (row E ! nat (cy E))), render = []\<rparr>]
                          @ drop (Suc (nat (cy E))) (row E))
                         [nat (cy E) := rendered
                            ((row E ! nat (cy E))
                               \<lparr>chars := take (nat (cx E)) (chars (row E ! nat (cy E)))\<rparr>)],
                  dirty := dirty E + 1, cy := cy E + 1, cx := 0\<rparr>)"
proof -
  let ?i = "nat (cy E)"
  have i: "?i < length (row E)"
    using cy0 cy1 by (simp add: numrows_def)
  have r: "row_at E (cy E) = Done (row E ! ?i)"
    using cy0 cy1 by (rule row_at_in_range)
  have n1: "nat (cy E + 1) = Suc ?i"
    using cy0 by (simp add: nat_add_distrib)
  define E1 where "E1 = E\<lparr>row := take (Suc ?i) (row E)
                          @ [rendered
                               \<lparr>chars = drop (nat (cx E)) (chars (row E ! ?i)), render = []\<rparr>]
                          @ drop (Suc ?i) (row E),
                  dirty := dirty E + 1\<rparr>"
  have ins: "editorInsertRow t1 (cy E + 1) (drop (nat (cx E)) (chars (row E ! ?i))) E = Done E1"
    unfolding E1_def using cy0 cy1 by (simp add: editorInsertRow_fits [OF _ _ f1] n1)
  have r1: "row_at E1 (cy E1) = Done (row E ! ?i)"
    unfolding E1_def using cy0 cy1 i by (simp add: row_at_def numrows_def nth_append)
  have u: "editorUpdateRow t2 ((row E ! ?i)\<lparr>chars := take (nat (cx E)) (chars (row E ! ?i))\<rparr>)
           = Done (rendered ((row E ! ?i)\<lparr>chars := take (nat (cx E)) (chars (row E ! ?i))\<rparr>))"
    using f2 by (intro editorUpdateRow_fits) simp
  have c: "cx E1 = cx E"
    by (simp add: E1_def)
  have "editorInsertNewline t1 t2 E =
          Done (E1\<lparr>row := (row E1)[nat (cy E1) :=
                   rendered ((row E ! ?i)\<lparr>chars := take (nat (cx E)) (chars (row E ! ?i))\<rparr>)],
                   cy := cy E1 + 1, cx := 0\<rparr>)"
    unfolding editorInsertNewline_def
    using cx0 cx1 by (simp add: r ins r1 c u)
  then show ?thesis
    unfolding E1_def by simp
qed

lemma delete_at_line_start:
  assumes cx0: "cx E1 = 0" and cyS: "cy E1 = int (Suc i)" and len: "length (row E1) = Suc n"
    and i: "i < n" and a: "row E1 ! i = a" and b: "row E1 ! Suc i = b"
    and joined: "joined = (row E1)[i := rendered (a\<lparr>chars := chars a @ chars b\<rparr>)]"
    and f3: "tabs_fit t3 (chars a @ chars b)"
  shows "editorDelChar t3 E1 =
           Done (E1\<lparr>cx := row_size a,
                   row := take (Suc i) joined @ take (n - i - 1) (drop (Suc (Suc i)) joined),
                   dirty := dirty E1 + 2, cy := int i\<rparr>)"
proof -
  have n0: "nat (1 + int i) = Suc i" "nat (2 + int i) = Suc (Suc i)"
    by simp_all
  have p: "row_at E1 (cy E1 - 1) = Done a"
    using cyS len i a by (simp add: row_at_def numrows_def)
  have c: "row_at E1 (cy E1) = Done b"
    using cyS len i b by (simp add: row_at_def numrows_def n0)
  have m: "nat (int (Suc n) - int (Suc i) - 1) = n - i - 1"
    using i by simp
  have m': "nat (int n - int i - 1) = n - i - 1"
    using i by simp
  have u: "editorUpdateRow t3 (a\<lparr>chars := chars a @ chars b\<rparr>)
           = Done (rendered (a\<lparr>chars := chars a @ chars b\<rparr>))"
    using f3 by (intro editorUpdateRow_fits) simp
  show ?thesis
    unfolding editorDelChar_def
    using cx0 cyS len i p c
    by (simp add: Let_def editorRowAppendString_def editorDelRow_def row_at_def numrows_def
        joined m' a b n0 u)
qed

text \<open>
  Claim C5. With the cursor on an existing line \<open>cy\<close>, at a column \<open>0 \<le> cx \<le> size\<close>:
  when each of the three calls of \<open>editorUpdateRow\<close> on the way (for the new line, for the
  shortened line, for the joined line) finds in its uninitialised \<open>tabs\<close> a value that
  fits the line, \<open>editorInsertNewline\<close> returns with one line more and the cursor at
  \<open>(cy + 1, 0)\<close>, and \<open>editorDelChar\<close> there returns the document with the content of
  every line as it was (line \<open>cy\<close> rendered anew), the original number of lines, the
  cursor back at \<open>(cy, cx)\<close>, and the dirty counter three higher. When the first call
  finds a value that is below zero together with the tabs of the line,
  \<open>editorInsertNewline\<close> writes outside the buffer of a rendering and nothing is restored.
\<close>

theorem newline_then_delete_restores_line:
  assumes cy0: "0 \<le> cy E" and cy1: "cy E < numrows E"
    and cx0: "0 \<le> cx E" and cx1: "cx E \<le> row_size (row E ! nat (cy E))"
  shows "(tabs_fit t1 (chars (row E ! nat (cy E))) \<and> tabs_fit t2 (chars (row E ! nat (cy E)))
          \<and> tabs_fit t3 (chars (row E ! nat (cy E))) \<longrightarrow>
           (\<exists>E1. editorInsertNewline t1 t2 E = Done E1
              \<and> numrows E1 = numrows E + 1 \<and> cy E1 = cy E + 1 \<and> cx E1 = 0
              \<and> editorDelChar t3 E1 =
                  Done (E\<lparr>row := (row E)[nat (cy E) := rendered (row E ! nat (cy E))],
                         dirty := dirty E + 3\<rparr>)
              \<and> chars (rendered (row E ! nat (cy E))) = chars (row E ! nat (cy E))
              \<and> length ((row E)[nat (cy E) := rendered (row E ! nat (cy E))])
                  = length (row E)))
         \<and> (count_tabs (chars (row E ! nat (cy E))) t1 < 0 \<longrightarrow>
              editorInsertNewline t1 t2 E = Fault)"
proof (intro conjI impI)
  assume neg: "count_tabs (chars (row E ! nat (cy E))) t1 < 0"
  let ?line = "chars (row E ! nat (cy E))"
  show "editorInsertNewline t1 t2 E = Fault"
  proof (cases "cx E = 0")
    case True
    have "count_tabs [] t1 \<le> count_tabs ([] @ [] @ ?line) t1"
      by (rule count_tabs_part)
    with neg have "count_tabs [] t1 < 0"
      by simp
    then have "editorInsertRow t1 (cy E) [] E = Fault"
      using cy0 cy1 by (intro editorInsertRow_negative) simp_all
    with True show ?thesis
      by (simp add: editorInsertNewline_def)
  next
    case False
    have "count_tabs (drop (nat (cx E)) ?line) t1
          \<le> count_tabs (take (nat (cx E)) ?line @ drop (nat (cx E)) ?line @ []) t1"
      by (rule count_tabs_part)
    with neg have "count_tabs (drop (nat (cx E)) ?line) t1 < 0"
      by simp
    then have "editorInsertRow t1 (cy E + 1) (drop (nat (cx E)) ?line) E = Fault"
      using cy0 cy1 by (intro editorInsertRow_negative) simp_all
    moreover have "row_at E (cy E) = Done (row E ! nat (cy E))"
      using cy0 cy1 by (rule row_at_in_range)
    ultimately show ?thesis
      using False cx0 cx1 by (simp add: editorInsertNewline_def)
  qed
next
  assume fits: "tabs_fit t1 (chars (row E ! nat (cy E))) \<and> tabs_fit t2 (chars (row E ! nat (cy E)))
          \<and> tabs_fit t3 (chars (row E ! nat (cy E)))"
  show "\<exists>E1. editorInsertNewline t1 t2 E = Done E1
              \<and> numrows E1 = numrows E + 1 \<and> cy E1 = cy E + 1 \<and> cx E1 = 0
              \<and> editorDelChar t3 E1 =
                  Done (E\<lparr>row := (row E)[nat (cy E) := rendered (row E ! nat (cy E))],
                         dirty := dirty E + 3\<rparr>)
              \<and> chars (rendered (row E ! nat (cy E))) = chars (row E ! nat (cy E))
              \<and> length ((row E)[nat (cy E) := rendered (row E ! nat (cy E))])
                  = length (row E)"
  proof -
  define i where "i = nat (cy E)"
  define r where "r = row E ! i"
  define n where "n = length (row E)"
  have i: "i < n"
    using cy0 cy1 by (simp add: numrows_def i_def n_def)
  have cyi: "cy E = int i"
    using cy0 by (simp add: i_def)
  have fin: "chars (rendered r) = chars r
      \<and> length ((row E)[i := rendered r]) = length (row E)"
    by (simp add: rendered_def)
  have f1: "tabs_fit t1 (chars r)" and f2: "tabs_fit t2 (chars r)" and f3: "tabs_fit t3 (chars r)"
    using fits by (simp_all add: r_def i_def)
  show ?thesis
  proof (cases "cx E = 0")
    case True
    define new where "new = rendered \<lparr>chars = [], render = []\<rparr>"
    define rows1 where "rows1 = take i (row E) @ [new] @ drop i (row E)"
    define E1 where "E1 = E\<lparr>row := rows1, dirty := dirty E + 1, cy := cy E + 1, cx := 0\<rparr>"
    have s1: "editorInsertNewline t1 t2 E = Done E1"
      unfolding E1_def rows1_def new_def i_def
      using cy0 cy1 True tabs_fit_empty [OF f1] by (rule newline_at_line_start)
    have len1: "length (row E1) = Suc n"
      using i by (simp add: E1_def rows1_def n_def)
    have at_i: "row E1 ! i = new"
      using i by (simp add: E1_def rows1_def nth_append n_def)
    have at_Si: "row E1 ! Suc i = r"
      using i by (simp add: E1_def rows1_def nth_append n_def r_def)
    have b: "rendered (new\<lparr>chars := chars new @ chars r\<rparr>) = rendered r"
      by (simp add: rendered_eq new_def)
    have sz: "row_size new = cx E"
      using True by (simp add: new_def row_size_def rendered_def)
    define joined where "joined = (row E1)[i := rendered (new\<lparr>chars := chars new @ chars r\<rparr>)]"
    have j: "take (Suc i) joined @ take (n - i - 1) (drop (Suc (Suc i)) joined)
             = (row E)[i := rendered r]"
      unfolding joined_def b E1_def rows1_def n_def
      using split_join_rows_first [of i "row E" new "rendered r"] i
      by (simp add: n_def)
    have "editorDelChar t3 E1 =
           Done (E1\<lparr>cx := row_size new,
                   row := take (Suc i) joined @ take (n - i - 1) (drop (Suc (Suc i)) joined),
                   dirty := dirty E1 + 2, cy := int i\<rparr>)"
    proof (rule delete_at_line_start)
      show "cx E1 = 0" by (simp add: E1_def)
      show "cy E1 = int (Suc i)" using cyi by (simp add: E1_def)
      show "length (row E1) = Suc n" by (rule len1)
      show "i < n" by (rule i)
      show "row E1 ! i = new" by (rule at_i)
      show "row E1 ! Suc i = r" by (rule at_Si)
      show "joined = (row E1)[i := rendered (new\<lparr>chars := chars new @ chars r\<rparr>)]"
        by (rule joined_def)
      show "tabs_fit t3 (chars new @ chars r)"
        using f3 by (simp add: new_def rendered_def)
    qed
    also have "\<dots> = Done (E\<lparr>row := (row E)[i := rendered r], dirty := dirty E + 3\<rparr>)"
      unfolding j sz by (simp add: E1_def cyi)
    finally have s2: "editorDelChar t3 E1 =
        Done (E\<lparr>row := (row E)[i := rendered r], dirty := dirty E + 3\<rparr>)" .
    have "numrows E1 = numrows E + 1 \<and> cy E1 = cy E + 1 \<and> cx E1 = 0"
      using len1 by (simp add: numrows_def n_def) (simp add: E1_def)
    with s1 s2 fin show ?thesis
      unfolding i_def [symmetric] r_def [symmetric] by blast
  next
    case False
    with cx0 have pos: "0 < cx E" by simp
    define tail where "tail = rendered \<lparr>chars = drop (nat (cx E)) (chars r), render = []\<rparr>"
    define head where "head = rendered (r\<lparr>chars := take (nat (cx E)) (chars r)\<rparr>)"
    define rows1 where "rows1 = (take (Suc i) (row E) @ [tail] @ drop (Suc i) (row E))[i := head]"
    define E1 where "E1 = E\<lparr>row := rows1, dirty := dirty E + 1, cy := cy E + 1, cx := 0\<rparr>"
    have s1: "editorInsertNewline t1 t2 E = Done E1"
      unfolding E1_def rows1_def tail_def head_def r_def i_def
      using cy0 cy1 pos cx1 tabs_fit_drop [OF f1 [unfolded r_def i_def]]
        tabs_fit_take [OF f2 [unfolded r_def i_def]]
      by (rule newline_inside_line)
    have len1: "length (row E1) = Suc n"
      using i by (simp add: E1_def rows1_def n_def)
    have at_i: "row E1 ! i = head"
      using i by (simp add: E1_def rows1_def n_def)
    have at_Si: "row E1 ! Suc i = tail"
      using i by (simp add: E1_def rows1_def nth_append n_def)
    have b: "rendered (head\<lparr>chars := chars head @ chars tail\<rparr>) = rendered r"
      by (simp add: rendered_eq head_def tail_def)
    have sz: "row_size head = cx E"
      using cx0 cx1 by (simp add: row_size_def rendered_def head_def r_def i_def)
    define joined where "joined = (row E1)[i := rendered (head\<lparr>chars := chars head @ chars tail\<rparr>)]"
    have j: "take (Suc i) joined @ take (n - i - 1) (drop (Suc (Suc i)) joined)
             = (row E)[i := rendered r]"
      unfolding joined_def b E1_def rows1_def n_def
      using split_join_rows_second [of i "row E" tail head "rendered r"] i
      by (simp add: n_def)
    have "editorDelChar t3 E1 =
           Done (E1\<lparr>cx := row_size head,
                   row := take (Suc i) joined @ take (n - i - 1) (drop (Suc (Suc i)) joined),
                   dirty := dirty E1 + 2, cy := int i\<rparr>)"
    proof (rule delete_at_line_start)
      show "cx E1 = 0" by (simp add: E1_def)
      show "cy E1 = int (Suc i)" using cyi by (simp add: E1_def)
      show "length (row E1) = Suc n" by (rule len1)
      show "i < n" by (rule i)
      show "row E1 ! i = head" by (rule at_i)
      show "row E1 ! Suc i = tail" by (rule at_Si)
      show "joined = (row E1)[i := rendered (head\<lparr>chars := chars head @ chars tail\<rparr>)]"
        by (rule joined_def)
      show "tabs_fit t3 (chars head @ chars tail)"
        using f3 by (simp add: head_def tail_def rendered_def)
    qed
    also have "\<dots> = Done (E\<lparr>row := (row E)[i := rendered r], dirty := dirty E + 3\<rparr>)"
      unfolding j sz by (simp add: E1_def cyi)
    finally have s2: "editorDelChar t3 E1 =
        Done (E\<lparr>row := (row E)[i := rendered r], dirty := dirty E + 3\<rparr>)" .
    have "numrows E1 = numrows E + 1 \<and> cy E1 = cy E + 1 \<and> cx E1 = 0"
      using len1 by (simp add: numrows_def n_def) (simp add: E1_def)
    with s1 s2 fin show ?thesis
      unfolding i_def [symmetric] r_def [symmetric] by blast
  qed
qed
qed

theorem newline_then_delete_restores_line_witness:
  "0 \<le> cy example_doc \<and> cy example_doc < numrows example_doc
   \<and> 0 \<le> cx example_doc \<and> cx example_doc \<le> row_size (row example_doc ! nat (cy example_doc))
   \<and> tabs_fit 0 (chars (row example_doc ! nat (cy example_doc)))
   \<and> (\<exists>E1. editorInsertNewline 0 0 example_doc = Done E1
           \<and> numrows E1 = numrows example_doc + 1 \<and> cy E1 = cy example_doc + 1 \<and> cx E1 = 0
           \<and> editorDelChar 0 E1 =
               Done (example_doc\<lparr>row := (row example_doc)[nat (cy example_doc) :=
                                     rendered (row example_doc ! nat (cy example_doc))],
                      dirty := dirty example_doc + 3\<rparr>)
           \<and> chars (rendered (row example_doc ! nat (cy example_doc)))
               = chars (row example_doc ! nat (cy example_doc))
           \<and> length ((row example_doc)[nat (cy example_doc) :=
                         rendered (row example_doc ! nat (cy example_doc))])
               = length (row example_doc))
   \<and> count_tabs (chars (row example_doc ! nat (cy example_doc))) (- 1) < 0
   \<and> editorInsertNewline (- 1) 0 example_doc = Fault"
proof -
  have h1: "0 \<le> cy example_doc"
    by (simp add: example_doc_def initEditor_def)
  have h2: "cy example_doc < numrows example_doc"
    by (simp add: example_doc_def initEditor_def numrows_def)
  have h3: "0 \<le> cx example_doc"
    by (simp add: example_doc_def initEditor_def)
  have h4: "cx example_doc \<le> row_size (row example_doc ! nat (cy example_doc))"
    by (simp add: example_doc_def initEditor_def row_size_def)
  have l: "chars (row example_doc ! nat (cy example_doc)) = ''hello''"
    by (simp add: example_doc_def initEditor_def)
  have f: "tabs_fit 0 (chars (row example_doc ! nat (cy example_doc)))"
    unfolding l by (simp add: tabs_fit_def TAB_def INT_MAX_def JATE_TABSTOP_def)
  have n: "count_tabs (chars (row example_doc ! nat (cy example_doc))) (- 1) < 0"
    unfolding l by (simp add: TAB_def)
  note T = newline_then_delete_restores_line [OF h1 h2 h3 h4]
  from T [where ?t1.0 = 0 and ?t2.0 = 0 and ?t3.0 = 0, THEN conjunct1] f
  have c1: "\<exists>E1. editorInsertNewline 0 0 example_doc = Done E1
           \<and> numrows E1 = numrows example_doc + 1 \<and> cy E1 = cy example_doc + 1 \<and> cx E1 = 0
           \<and> editorDelChar 0 E1 =
               Done (example_doc\<lparr>row := (row example_doc)[nat (cy example_doc) :=
                                     rendered (row example_doc ! nat (cy example_doc))],
                      dirty := dirty example_doc + 3\<rparr>)
           \<and> chars (rendered (row example_doc ! nat (cy example_doc)))
               = chars (row example_doc ! nat (cy example_doc))
           \<and> length ((row example_doc)[nat (cy example_doc) :=
                         rendered (row example_doc ! nat (cy example_doc))])
               = length (row example_doc)"
    by (simp only: simp_thms)
  from T [where ?t1.0 = "- 1" and ?t2.0 = 0, THEN conjunct2] n
  have c2: "editorInsertNewline (- 1) 0 example_doc = Fault"
    by (simp only: simp_thms)
  show ?thesis
    by (intro conjI h1 h2 h3 h4 f c1 n c2)
qed

section \<open>Loading and serializing\<close>

















section \<open>The line prompt\<close>

lemma key_codes:
  "char_to_int ESC = 27" "char_to_int CR = 13"
  "CTRL_KEY (of_char CHR ''h'') = 8" "CTRL_KEY (of_char CHR ''q'') = 17"
  "CTRL_KEY (of_char CHR ''s'') = 19" "CTRL_KEY (of_char CHR ''l'') = 12"
  "CTRL_KEY 104 = 8" "CTRL_KEY 113 = 17" "CTRL_KEY 115 = 19" "CTRL_KEY 108 = 12"
  by (simp_all add: char_to_int_def ESC_def CR_def CTRL_KEY_def)

lemma editorPrompt_loop_step:
  assumes r: "editorRefreshScreen (editorSetStatusMessage (prompt buf) E) = Done E1"
    and k: "editorReadKey inp = Done (c, inp1)"
  shows "editorPrompt_loop prompt buf inp E =
     (if c = DEL_KEY \<or> c = 8 \<or> c = BACKSPACE then
        editorPrompt_loop prompt (if length buf \<noteq> 0 then butlast buf else buf) inp1 E1
      else if c \<noteq> 27 then Done (None, inp1, editorSetStatusMessage [] E1)
      else editorPrompt_loop prompt buf inp1 E1)"
  by (subst editorPrompt_loop.simps)
    (simp add: r k key_codes iscntrl_def DEL_KEY_def BACKSPACE_def)

lemma editorPrompt_loop_no_value:
  "editorPrompt_loop prompt buf inp E \<noteq> Done (Some name, inp', E')"
proof (induction "length inp" arbitrary: buf inp E rule: less_induct)
  case less
  show ?case
  proof (cases "editorRefreshScreen (editorSetStatusMessage (prompt buf) E)")
    case (Done E1)
    note r = this
    show ?thesis
    proof (cases "editorReadKey inp")
      case (Done p)
      obtain c inp1 where p: "p = (c, inp1)" by (cases p)
      with Done have k: "editorReadKey inp = Done (c, inp1)" by simp
      have shorter: "length inp1 < length inp"
        using k by (rule editorReadKey_shorter)
      show ?thesis
        unfolding editorPrompt_loop_step [where prompt = prompt and buf = buf, OF r k]
        using less.hyps [OF shorter] by simp
    next
      case Fault
      with r show ?thesis by (subst editorPrompt_loop.simps) simp
    next
      case (Exited n)
      with r show ?thesis by (subst editorPrompt_loop.simps) simp
    next
      case Blocked
      with r show ?thesis by (subst editorPrompt_loop.simps) simp
    qed
  next
    case Fault
    then show ?thesis by (subst editorPrompt_loop.simps) simp
  next
    case (Exited n)
    then show ?thesis by (subst editorPrompt_loop.simps) simp
  next
    case Blocked
    then show ?thesis by (subst editorPrompt_loop.simps) simp
  qed
qed

text \<open>
  Claim C1. What the prompt does with one key, read after the screen was refreshed:
  a bare Escape leaves the prompt open with the buffer as it is (it does not cancel);
  CarriageReturn returns no value, whatever the buffer holds (it does not commit); a
  printable ASCII key returns no value (it is not appended); Backspace, Ctrl-H and
  Delete remove the last buffered character and leave the prompt open.
\<close>

theorem editorPrompt_key_handling:
  assumes r: "editorRefreshScreen (editorSetStatusMessage (prompt buf) E) = Done E1"
    and k: "editorReadKey inp = Done (c, inp1)"
  shows "(c = char_to_int ESC \<longrightarrow>
            editorPrompt_loop prompt buf inp E = editorPrompt_loop prompt buf inp1 E1)
       \<and> (c = char_to_int CR \<longrightarrow>
            editorPrompt_loop prompt buf inp E = Done (None, inp1, editorSetStatusMessage [] E1))
       \<and> (32 \<le> c \<and> c < 127 \<longrightarrow>
            editorPrompt_loop prompt buf inp E = Done (None, inp1, editorSetStatusMessage [] E1))
       \<and> (c = BACKSPACE \<or> c = CTRL_KEY (of_char CHR ''h'') \<or> c = DEL_KEY \<longrightarrow>
            editorPrompt_loop prompt buf inp E = editorPrompt_loop prompt (butlast buf) inp1 E1)"
  unfolding editorPrompt_loop_step [where prompt = prompt and buf = buf, OF r k]
  by (auto simp: key_codes DEL_KEY_def BACKSPACE_def)

lemma scroll_initEditor:
  "editorRefreshScreen (editorSetStatusMessage msg (initEditor 24 80))
     = Done (editorSetStatusMessage msg (initEditor 24 80))"
  by (simp add: editorRefreshScreen_def editorScroll_def editorSetStatusMessage_def
      initEditor_def numrows_def Let_def)

lemma read_plain_byte:
  "b \<noteq> ESC \<Longrightarrow> editorReadKey (Byte b # rest) = Done (char_to_int b, rest)"
  by (simp add: editorReadKey_def)

lemma read_bare_escape:
  "editorReadKey (Byte ESC # NoData # rest) = Done (27, rest)"
  by (simp add: editorReadKey_def key_codes)

theorem editorPrompt_key_handling_witness:
  "editorPrompt_loop save_as [] [Byte CHR ''a''] (initEditor 24 80)
     = Done (None, [], editorSetStatusMessage [] (editorSetStatusMessage (save_as []) (initEditor 24 80)))
   \<and> editorPrompt_loop save_as ''x'' [Byte CR] (initEditor 24 80)
     = Done (None, [], editorSetStatusMessage [] (editorSetStatusMessage (save_as ''x'') (initEditor 24 80)))
   \<and> editorPrompt_loop save_as ''x'' [Byte ESC, NoData] (initEditor 24 80)
     = editorPrompt_loop save_as ''x'' [] (editorSetStatusMessage (save_as ''x'') (initEditor 24 80))
   \<and> editorPrompt_loop save_as ''xy'' [Byte (CHR 0x7F)] (initEditor 24 80)
     = editorPrompt_loop save_as ''x'' [] (editorSetStatusMessage (save_as ''xy'') (initEditor 24 80))"
proof -
  have ka: "editorReadKey [Byte CHR ''a''] = Done (97, [])"
    by (simp add: read_plain_byte ESC_def char_to_int_def)
  have kr: "editorReadKey [Byte CR] = Done (char_to_int CR, [])"
    by (simp add: read_plain_byte ESC_def CR_def)
  have ke: "editorReadKey [Byte ESC, NoData] = Done (char_to_int ESC, [])"
    by (simp add: read_bare_escape key_codes)
  have kb: "editorReadKey [Byte (CHR 0x7F)] = Done (BACKSPACE, [])"
    by (simp add: read_plain_byte ESC_def char_to_int_def BACKSPACE_def)
  show ?thesis
    using editorPrompt_key_handling [where prompt = save_as and buf = "[]", OF scroll_initEditor ka]
      editorPrompt_key_handling [where prompt = save_as and buf = "''x''", OF scroll_initEditor kr]
      editorPrompt_key_handling [where prompt = save_as and buf = "''x''", OF scroll_initEditor ke]
      editorPrompt_key_handling [where prompt = save_as and buf = "''xy''", OF scroll_initEditor kb]
    by simp
qed

section \<open>Saving\<close>

lemma view_reset_trans:
  "view_reset E E1 = E \<Longrightarrow> view_reset E1 E' = E1 \<Longrightarrow> view_reset E E' = E"
  by (cases E; cases E1; cases E') (simp add: view_reset_def)

lemma view_reset_status_after:
  "view_reset E E1 = E \<Longrightarrow> view_reset E (editorSetStatusMessage msg E1) = E"
  by (cases E; cases E1) (simp add: view_reset_def editorSetStatusMessage_def)

lemma editorScroll_frame:
  assumes "editorScroll E = Done E1"
  shows "view_reset E E1 = E"
  using assms unfolding editorScroll_def
  by (auto dest!: andThen_Done simp: view_reset_def Let_def split: if_splits)

lemma editorPrompt_loop_frame:
  "editorPrompt_loop prompt buf inp E = Done (res, inp', E') \<Longrightarrow> view_reset E E' = E"
proof (induction "length inp" arbitrary: buf inp E rule: less_induct)
  case less
  show ?case
  proof (cases "editorRefreshScreen (editorSetStatusMessage (prompt buf) E)")
    case (Done E1)
    note r = this
    have "view_reset (editorSetStatusMessage (prompt buf) E) E1 = editorSetStatusMessage (prompt buf) E"
      using r unfolding editorRefreshScreen_def by (rule editorScroll_frame)
    then have f1: "view_reset E E1 = E"
      by (cases E; cases E1) (simp add: view_reset_def editorSetStatusMessage_def)
    show ?thesis
    proof (cases "editorReadKey inp")
      case (Done p)
      obtain c inp1 where p: "p = (c, inp1)" by (cases p)
      with Done have k: "editorReadKey inp = Done (c, inp1)" by simp
      have shorter: "length inp1 < length inp"
        using k by (rule editorReadKey_shorter)
      note step = editorPrompt_loop_step [where prompt = prompt and buf = buf, OF r k]
      show ?thesis
      proof (cases "c = DEL_KEY \<or> c = 8 \<or> c = BACKSPACE")
        case True
        with less.prems step
        have "editorPrompt_loop prompt (if length buf \<noteq> 0 then butlast buf else buf) inp1 E1
              = Done (res, inp', E')"
          by simp
        then have "view_reset E1 E' = E1"
          using shorter by (intro less.hyps)
        with f1 show ?thesis by (rule view_reset_trans)
      next
        case False
        note nd = this
        show ?thesis
        proof (cases "c = 27")
          case True
          with less.prems step nd
          have "editorPrompt_loop prompt buf inp1 E1 = Done (res, inp', E')"
            by simp
          then have "view_reset E1 E' = E1"
            using shorter by (intro less.hyps)
          with f1 show ?thesis by (rule view_reset_trans)
        next
          case False
          with less.prems step nd have "E' = editorSetStatusMessage [] E1"
            by simp
          with f1 show ?thesis
            by (simp add: view_reset_status_after)
        qed
      qed
    next
      case Fault
      with r less.prems show ?thesis by (subst (asm) editorPrompt_loop.simps) simp
    next
      case (Exited n)
      with r less.prems show ?thesis by (subst (asm) editorPrompt_loop.simps) simp
    next
      case Blocked
      with r less.prems show ?thesis by (subst (asm) editorPrompt_loop.simps) simp
    qed
  next
    case Fault
    with less.prems show ?thesis by (subst (asm) editorPrompt_loop.simps) simp
  next
    case (Exited n)
    with less.prems show ?thesis by (subst (asm) editorPrompt_loop.simps) simp
  next
    case Blocked
    with less.prems show ?thesis by (subst (asm) editorPrompt_loop.simps) simp
  qed
qed

lemma andThen_Exited:
  "andThen m f = Exited n \<Longrightarrow> m = Exited n \<or> (\<exists>x. m = Done x \<and> f x = Exited n)"
  by (cases m) auto

lemma read_first_byte_rest:
  "read_first_byte inp = Done (c, rest) \<Longrightarrow> set rest \<subseteq> set inp"
  by (induction inp rule: read_first_byte.induct) auto

lemma read_seq_byte_rest:
  "read_seq_byte inp = Done (c, rest) \<Longrightarrow> set rest \<subseteq> set inp"
  by (induction inp rule: read_seq_byte.induct) auto

lemma read_first_byte_Exited:
  "read_first_byte inp = Exited n \<Longrightarrow> ErrOther \<in> set inp"
  by (induction inp rule: read_first_byte.induct) auto

lemma read_seq_byte_not_Exited: "read_seq_byte inp \<noteq> Exited n"
  by (induction inp rule: read_seq_byte.induct) auto

lemma editorReadKey_Exited:
  assumes "editorReadKey inp = Exited n"
  shows "ErrOther \<in> set inp"
proof (cases "read_first_byte inp")
  case (Done p)
  obtain b inp1 where "p = (b, inp1)" by (cases p)
  with assms Done have False
    unfolding editorReadKey_def
    by (auto dest!: andThen_Exited simp: read_seq_byte_not_Exited split: if_splits option.splits)
  then show ?thesis ..
next
  case Fault
  with assms show ?thesis by (simp add: editorReadKey_def)
next
  case (Exited m)
  then show ?thesis by (simp add: read_first_byte_Exited)
next
  case Blocked
  with assms show ?thesis by (simp add: editorReadKey_def)
qed

lemma editorReadKey_rest:
  assumes "editorReadKey inp = Done (c, rest)"
  shows "set rest \<subseteq> set inp"
proof -
  from assms obtain b inp1 where b: "read_first_byte inp = Done (b, inp1)"
    by (auto simp: editorReadKey_def dest!: andThen_Done)
  have l1: "set inp1 \<subseteq> set inp"
    using b by (rule read_first_byte_rest)
  have "set rest \<subseteq> set inp1"
    using assms b unfolding editorReadKey_def
    by (auto dest!: andThen_Done read_seq_byte_rest split: if_splits option.splits) blast+
  with l1 show ?thesis by simp
qed

lemma cx_to_rx_loop_not_Exited: "cx_to_rx_loop cs cx' j rx' \<noteq> Exited n"
proof (induction cs cx' j rx' rule: cx_to_rx_loop.induct)
  case (1 cs cx' j rx')
  show ?case
  proof (cases "j < cx'")
    case False
    then show ?thesis by (subst cx_to_rx_loop.simps) simp
  next
    case True
    show ?thesis
    proof (cases "char_at cs j")
      case (Done c)
      with True "1.IH" [OF True, of c] show ?thesis
        by (subst cx_to_rx_loop.simps) simp
    next
      case Fault
      with True show ?thesis by (subst cx_to_rx_loop.simps) simp
    next
      case (Exited m)
      then show ?thesis by (simp add: char_at_def split: if_splits)
    next
      case Blocked
      with True show ?thesis by (subst cx_to_rx_loop.simps) simp
    qed
  qed
qed

lemma editorScroll_not_Exited: "editorScroll E \<noteq> Exited n"
  unfolding editorScroll_def
  by (auto dest!: andThen_Exited simp: Let_def row_at_def editorRowCxToRx_def
      cx_to_rx_loop_not_Exited split: if_splits)

lemma editorPrompt_loop_Exited:
  "editorPrompt_loop prompt buf inp E = Exited n \<Longrightarrow> ErrOther \<in> set inp"
proof (induction "length inp" arbitrary: buf inp E rule: less_induct)
  case less
  show ?case
  proof (cases "editorRefreshScreen (editorSetStatusMessage (prompt buf) E)")
    case (Done E1)
    note r = this
    show ?thesis
    proof (cases "editorReadKey inp")
      case (Done p)
      obtain c inp1 where p: "p = (c, inp1)" by (cases p)
      with Done have k: "editorReadKey inp = Done (c, inp1)" by simp
      have shorter: "length inp1 < length inp"
        using k by (rule editorReadKey_shorter)
      have sub: "set inp1 \<subseteq> set inp"
        using k by (rule editorReadKey_rest)
      note step = editorPrompt_loop_step [where prompt = prompt and buf = buf, OF r k]
      from less.prems step obtain buf' where "editorPrompt_loop prompt buf' inp1 E1 = Exited n"
        by (auto split: if_splits)
      then have "ErrOther \<in> set inp1"
        using shorter by (intro less.hyps)
      with sub show ?thesis by auto
    next
      case Fault
      with r less.prems show ?thesis by (subst (asm) editorPrompt_loop.simps) simp
    next
      case (Exited m)
      then show ?thesis by (simp add: editorReadKey_Exited)
    next
      case Blocked
      with r less.prems show ?thesis by (subst (asm) editorPrompt_loop.simps) simp
    qed
  next
    case Fault
    with less.prems show ?thesis by (subst (asm) editorPrompt_loop.simps) simp
  next
    case (Exited m)
    then have False
      by (simp add: editorRefreshScreen_def editorScroll_not_Exited)
    then show ?thesis ..
  next
    case Blocked
    with less.prems show ?thesis by (subst (asm) editorPrompt_loop.simps) simp
  qed
qed

lemma scroll_offsets_again:
  fixes c r sr x :: int
  defines "r1 \<equiv> (if c < r then c else r)"
  defines "r2 \<equiv> (if c \<ge> r1 + sr then c - sr + 1 else r1)"
  shows "(if c \<ge> (if c < r2 then c else r2) + sr then c - sr + 1 else (if c < r2 then c else r2)) = r2"
  unfolding r2_def r1_def by auto

lemma editorScroll_again:
  assumes "editorScroll E = Done S"
  shows "editorScroll (S\<lparr>statusmsg := m, quit_times := q\<rparr>) = Done (S\<lparr>statusmsg := m, quit_times := q\<rparr>)"
proof -
  from assms obtain x where
    x: "(if cy E < numrows E then andThen (row_at E (cy E)) (\<lambda>r. editorRowCxToRx r (cx E))
         else Done 0) = Done x"
    unfolding editorScroll_def by (auto dest!: andThen_Done)
  define r1 where "r1 = (if cy E < rowoff E then cy E else rowoff E)"
  define r2 where "r2 = (if cy E \<ge> r1 + screenrows E then cy E - screenrows E + 1 else r1)"
  define c1 where "c1 = (if x < coloff E then x else coloff E)"
  define c2 where "c2 = (if x \<ge> c1 + screencols E then x - screencols E + 1 else c1)"
  have S: "S = E\<lparr>rx := x, rowoff := r2, coloff := c2\<rparr>"
    using assms x unfolding editorScroll_def
    by (cases E) (auto simp: Let_def r1_def r2_def c1_def c2_def)
  let ?S = "S\<lparr>statusmsg := m, quit_times := q\<rparr>"
  have x': "(if cy ?S < numrows ?S then andThen (row_at ?S (cy ?S)) (\<lambda>r. editorRowCxToRx r (cx ?S))
         else Done 0) = Done x"
  proof -
    have "numrows ?S = numrows E" "cy ?S = cy E" "cx ?S = cx E"
      by (simp_all add: S numrows_def)
    moreover have "row_at ?S = row_at E"
      by (rule ext) (simp add: row_at_def numrows_def S)
    ultimately show ?thesis
      using x by (simp only:)
  qed
  have ro: "(if cy E \<ge> (if cy E < r2 then cy E else r2) + screenrows E then cy E - screenrows E + 1
             else (if cy E < r2 then cy E else r2)) = r2"
    unfolding r2_def r1_def by (rule scroll_offsets_again)
  have co: "(if x \<ge> (if x < c2 then x else c2) + screencols E then x - screencols E + 1
             else (if x < c2 then x else c2)) = c2"
    unfolding c2_def c1_def by (rule scroll_offsets_again)
  have "editorScroll ?S = Done (?S\<lparr>rx := x,
      rowoff := (if cy E \<ge> (if cy E < r2 then cy E else r2) + screenrows E then cy E - screenrows E + 1
             else (if cy E < r2 then cy E else r2)),
      coloff := (if x \<ge> (if x < c2 then x else c2) + screencols E then x - screencols E + 1
             else (if x < c2 then x else c2))\<rparr>)"
    unfolding editorScroll_def x' by (cases E) (auto simp: Let_def S)
  then show ?thesis
    unfolding ro co by (simp add: S)
qed

lemma refreshed_again:
  assumes "editorRefreshScreen E0 = Done E"
  shows "editorRefreshScreen (E\<lparr>statusmsg := m\<rparr>) = Done (E\<lparr>statusmsg := m\<rparr>)"
proof -
  have "E\<lparr>statusmsg := m, quit_times := quit_times E\<rparr> = E\<lparr>statusmsg := m\<rparr>"
    by simp
  with editorScroll_again [where E = E0 and S = E and m = m and q = "quit_times E"] assms
  show ?thesis
    by (simp add: editorRefreshScreen_def)
qed

lemma editorPrompt_loop_refreshed:
  assumes fixed: "\<And>m. editorRefreshScreen (B\<lparr>statusmsg := m\<rparr>) = Done (B\<lparr>statusmsg := m\<rparr>)"
  shows "editorPrompt_loop prompt buf inp (B\<lparr>statusmsg := m\<rparr>) = Done (res, inp', E')
           \<Longrightarrow> E' = B\<lparr>statusmsg := []\<rparr>"
proof (induction "length inp" arbitrary: buf inp m rule: less_induct)
  case less
  let ?E1 = "B\<lparr>statusmsg := take 79 (prompt buf)\<rparr>"
  have r: "editorRefreshScreen (editorSetStatusMessage (prompt buf) (B\<lparr>statusmsg := m\<rparr>)) = Done ?E1"
    using fixed [of "take 79 (prompt buf)"] by (simp add: editorSetStatusMessage_def)
  show ?case
  proof (cases "editorReadKey inp")
    case (Done p)
    obtain c inp1 where p: "p = (c, inp1)" by (cases p)
    with Done have k: "editorReadKey inp = Done (c, inp1)" by simp
    have shorter: "length inp1 < length inp"
      using k by (rule editorReadKey_shorter)
    note step = editorPrompt_loop_step [where prompt = prompt and buf = buf, OF r k]
    show ?thesis
    proof (cases "c = DEL_KEY \<or> c = 8 \<or> c = BACKSPACE")
      case True
      with less.prems step
      have "editorPrompt_loop prompt (if length buf \<noteq> 0 then butlast buf else buf) inp1 ?E1
            = Done (res, inp', E')"
        by simp
      then show ?thesis
        using shorter by (intro less.hyps)
    next
      case False
      note nd = this
      show ?thesis
      proof (cases "c = 27")
        case True
        with less.prems step nd
        have "editorPrompt_loop prompt buf inp1 ?E1 = Done (res, inp', E')"
          by simp
        then show ?thesis
          using shorter by (intro less.hyps)
      next
        case False
        with less.prems step nd have "E' = editorSetStatusMessage [] ?E1"
          by simp
        then show ?thesis
          by (simp add: editorSetStatusMessage_def)
      qed
    qed
  next
    case Fault
    with r less.prems show ?thesis by (subst (asm) editorPrompt_loop.simps) simp
  next
    case (Exited n)
    with r less.prems show ?thesis by (subst (asm) editorPrompt_loop.simps) simp
  next
    case Blocked
    with r less.prems show ?thesis by (subst (asm) editorPrompt_loop.simps) simp
  qed
qed

lemma view_reset_fields:
  assumes "view_reset E E' = E"
  shows "row E' = row E \<and> dirty E' = dirty E \<and> filename E' = filename E"
proof -
  have "row (view_reset E E') = row E' \<and> dirty (view_reset E E') = dirty E'
        \<and> filename (view_reset E E') = filename E'"
    by (simp add: view_reset_def)
  with assms show ?thesis by simp
qed

text \<open>
  Claim C3. When no file name is bound and the Save-As prompt returns no value,
  \<open>editorSave\<close> returns with the message "Save aborted", and the state differs from the
  one before the call only in the status message and the view offsets the prompt's
  screen refresh recomputes: the lines, the dirty counter and the (absent) file name are
  as before. When a file name is bound and \<open>open\<close>, \<open>ftruncate\<close> or \<open>write\<close> fails,
  \<open>editorSave\<close> returns with only the status message changed. The prompt never returns a
  name, so these are all the ways a save fails. The process ends inside \<open>editorSave\<close> only
  when a terminal read fails in the prompt. In a state that comes out of
  \<open>editorRefreshScreen\<close>, as every state \<open>main\<close> passes to \<open>editorProcessKeypress\<close> does, the
  refresh of the prompt changes nothing, and the cancelled save returns the state with
  the status message "Save aborted" and no other change.
\<close>

theorem editorSave_failure_keeps_document:
  "(filename E = None \<and> editorPrompt save_as inp E = Done (None, inp1, E1) \<longrightarrow>
      editorSave fs inp E = Done (inp1, editorSetStatusMessage ''Save aborted'' E1)
      \<and> view_reset E (editorSetStatusMessage ''Save aborted'' E1) = E
      \<and> row E1 = row E \<and> dirty E1 = dirty E \<and> filename E1 = None)
   \<and> (filename E = Some f
       \<and> (fs f (editorRowsToString E) = OpenFailed err
          \<or> fs f (editorRowsToString E) = TruncateFailed err
          \<or> fs f (editorRowsToString E) = WriteFailed err) \<longrightarrow>
      editorSave fs inp E = Done (inp, E\<lparr>statusmsg := take 79 (cant_save err)\<rparr>))
   \<and> editorPrompt save_as inp E \<noteq> Done (Some name, inp1, E1)
   \<and> (editorSave fs inp E = Exited n \<longrightarrow> ErrOther \<in> set inp)
   \<and> (editorRefreshScreen E0 = Done E \<and> filename E = None
       \<and> editorPrompt save_as inp E = Done (None, inp1, E1) \<longrightarrow>
      editorSave fs inp E = Done (inp1, E\<lparr>statusmsg := ''Save aborted''\<rparr>))"
proof (intro conjI impI)
  assume b: "editorRefreshScreen E0 = Done E \<and> filename E = None
       \<and> editorPrompt save_as inp E = Done (None, inp1, E1)"
  then have fixed: "\<And>m. editorRefreshScreen (E\<lparr>statusmsg := m\<rparr>) = Done (E\<lparr>statusmsg := m\<rparr>)"
    by (intro refreshed_again [of E0]) simp
  have "E\<lparr>statusmsg := statusmsg E\<rparr> = E"
    by simp
  with b have "editorPrompt_loop save_as [] inp (E\<lparr>statusmsg := statusmsg E\<rparr>)
               = Done (None, inp1, E1)"
    by (simp add: editorPrompt_def)
  with fixed have e: "E1 = E\<lparr>statusmsg := []\<rparr>"
    by (rule editorPrompt_loop_refreshed)
  show "editorSave fs inp E = Done (inp1, E\<lparr>statusmsg := ''Save aborted''\<rparr>)"
    using b by (simp add: editorSave_def e editorSetStatusMessage_def)
next
  assume a: "filename E = None \<and> editorPrompt save_as inp E = Done (None, inp1, E1)"
  then have "editorPrompt_loop save_as [] inp E = Done (None, inp1, E1)"
    by (simp add: editorPrompt_def)
  then have f: "view_reset E E1 = E"
    by (rule editorPrompt_loop_frame)
  then have g: "row E1 = row E \<and> dirty E1 = dirty E \<and> filename E1 = filename E"
    by (rule view_reset_fields)
  have "E1\<lparr>filename := filename E1\<rparr> = E1"
    by simp
  with a g have u: "E1\<lparr>filename := None\<rparr> = E1"
    by simp
  show "editorSave fs inp E = Done (inp1, editorSetStatusMessage ''Save aborted'' E1)"
    using a g by (simp add: editorSave_def u)
  show "view_reset E (editorSetStatusMessage ''Save aborted'' E1) = E"
    using f by (rule view_reset_status_after)
  show "row E1 = row E" "dirty E1 = dirty E" "filename E1 = None"
    using a g by simp_all
next
  assume "filename E = Some f
       \<and> (fs f (editorRowsToString E) = OpenFailed err
          \<or> fs f (editorRowsToString E) = TruncateFailed err
          \<or> fs f (editorRowsToString E) = WriteFailed err)"
  then show "editorSave fs inp E = Done (inp, E\<lparr>statusmsg := take 79 (cant_save err)\<rparr>)"
    by (auto simp: editorSave_def editorSetStatusMessage_def Let_def)
next
  show "editorPrompt save_as inp E \<noteq> Done (Some name, inp1, E1)"
    unfolding editorPrompt_def by (rule editorPrompt_loop_no_value)
next
  assume x: "editorSave fs inp E = Exited n"
  show "ErrOther \<in> set inp"
  proof (cases "filename E")
    case None
    with x have "editorPrompt save_as inp E = Exited n"
      unfolding editorSave_def
      by (auto dest!: andThen_Exited simp: Let_def split: option.splits store_result.splits)
    then show ?thesis
      unfolding editorPrompt_def by (rule editorPrompt_loop_Exited)
  next
    case (Some f)
    with x have False
      by (auto simp: editorSave_def Let_def split: store_result.splits)
    then show ?thesis ..
  qed
qed

theorem editorSave_failure_keeps_document_witness:
  "editorSave failing_store [Byte CHR ''a''] (initEditor 24 80)
     = Done ([], editorSetStatusMessage ''Save aborted''
                   (editorSetStatusMessage [] (editorSetStatusMessage (save_as []) (initEditor 24 80))))
   \<and> row (editorSetStatusMessage [] (editorSetStatusMessage (save_as []) (initEditor 24 80))) = []
   \<and> dirty (editorSetStatusMessage [] (editorSetStatusMessage (save_as []) (initEditor 24 80))) = 0
   \<and> editorSave failing_store [] named_doc
     = Done ([], named_doc\<lparr>statusmsg := take 79 (cant_save ''Permission denied'')\<rparr>)
   \<and> editorSave failing_store [ErrOther] (initEditor 24 80) = Exited 1
   \<and> ErrOther \<in> set [ErrOther]
   \<and> editorRefreshScreen (initEditor 24 80) = Done (initEditor 24 80)
   \<and> editorSave failing_store [Byte CHR ''a''] (initEditor 24 80)
       = Done ([], (initEditor 24 80)\<lparr>statusmsg := ''Save aborted''\<rparr>)"
proof -
  let ?E0 = "initEditor 24 80"
  let ?E1 = "editorSetStatusMessage [] (editorSetStatusMessage (save_as []) ?E0)"
  have ka: "editorReadKey [Byte CHR ''a''] = Done (97, [])"
    by (simp add: read_plain_byte ESC_def char_to_int_def)
  have p1: "editorPrompt save_as [Byte CHR ''a''] ?E0 = Done (None, [], ?E1)"
    unfolding editorPrompt_def
    by (subst editorPrompt_loop_step [where prompt = save_as and buf = "[]", OF scroll_initEditor ka])
      (simp add: DEL_KEY_def BACKSPACE_def)
  have n1: "filename ?E0 = None"
    by (simp add: initEditor_def)
  have f2: "filename named_doc = Some ''t.txt''"
    by (simp add: named_doc_def)
  have s2: "failing_store ''t.txt'' (editorRowsToString named_doc) = OpenFailed ''Permission denied''"
    by (simp add: failing_store_def)
  have x4: "editorSave failing_store [ErrOther] ?E0 = Exited 1"
    unfolding editorSave_def editorPrompt_def
    by (subst editorPrompt_loop.simps)
      (simp add: n1 scroll_initEditor editorReadKey_def)
  have e0: "row ?E0 = []" "dirty ?E0 = 0"
    by (simp_all add: initEditor_def)
  from editorSave_failure_keeps_document
         [of ?E0 "[Byte CHR ''a'']" "[]" ?E1 failing_store "''t.txt''" "''Permission denied''"]
       n1 p1 e0
  have c1: "editorSave failing_store [Byte CHR ''a''] ?E0
             = Done ([], editorSetStatusMessage ''Save aborted'' ?E1)
            \<and> row ?E1 = [] \<and> dirty ?E1 = 0"
    by simp
  from editorSave_failure_keeps_document
         [of named_doc "[]" "[]" named_doc failing_store "''t.txt''" "''Permission denied''"]
       f2 s2
  have c2: "editorSave failing_store [] named_doc
             = Done ([], named_doc\<lparr>statusmsg := take 79 (cant_save ''Permission denied'')\<rparr>)"
    by simp
  from editorSave_failure_keeps_document
         [of ?E0 "[ErrOther]" "[]" ?E0 failing_store "''t.txt''" "''Permission denied''" "[]" 1]
       x4
  have c4: "ErrOther \<in> set [ErrOther]"
    by (simp only: simp_thms)
  have r0: "editorRefreshScreen ?E0 = Done ?E0"
    using scroll_initEditor [of "[]"] by (simp add: editorSetStatusMessage_def initEditor_def)
  from editorSave_failure_keeps_document
         [of ?E0 "[Byte CHR ''a'']" "[]" ?E1 failing_store "''t.txt''" "''Permission denied''"
             "[]" 1 ?E0]
       n1 p1 r0
  have c5: "editorSave failing_store [Byte CHR ''a''] ?E0
             = Done ([], ?E0\<lparr>statusmsg := ''Save aborted''\<rparr>)"
    by (simp add: editorSetStatusMessage_def)
  show ?thesis
    using c1 c2 x4 c4 r0 c5 by (simp only: simp_thms)
qed

section \<open>Quit confirmation\<close>

lemma read_ctrl_q: "editorReadKey (Byte CTRL_Q # rest) = Done (CTRL_KEY (of_char CHR ''q''), rest)"
  by (simp add: read_plain_byte CTRL_Q_def ESC_def char_to_int_def key_codes)

lemma read_ctrl_l: "editorReadKey (Byte CTRL_L # rest) = Done (CTRL_KEY (of_char CHR ''l''), rest)"
  by (simp add: read_plain_byte CTRL_L_def ESC_def char_to_int_def key_codes)

lemma digit_chars:
  "digit_char (Suc 0) = CHR ''1''" "digit_char 2 = CHR ''2''" "digit_char 3 = CHR ''3''"
  unfolding digit_char_def by code_simp+

lemma show_int_small: "show_int 1 = ''1''" "show_int 2 = ''2''" "show_int 3 = ''3''"
  by (simp_all add: show_int_def show_nat.simps digit_chars)

lemma quit_warning_text:
  "quit_warning n =
     ''WARNING!!! File has unsaved changes. Press Ctrl-q '' @ show_int n @ '' more times to quit''"
  by (simp add: quit_warning_def)

lemma quit_warning_small:
  "take 79 (quit_warning 3)
     = ''WARNING!!! File has unsaved changes. Press Ctrl-q 3 more times to quit''"
  "take 79 (quit_warning 2)
     = ''WARNING!!! File has unsaved changes. Press Ctrl-q 2 more times to quit''"
  "take 79 (quit_warning 1)
     = ''WARNING!!! File has unsaved changes. Press Ctrl-q 1 more times to quit''"
  by (simp_all add: quit_warning_def show_int_small)

lemma after_switch_Done:
  "after_switch (Done (inp, E)) = Done (inp, E\<lparr>quit_times := 3\<rparr>)"
  by (simp add: after_switch_def JATE_QUIT_TIMES_def)

lemma keypress_quit_warns:
  assumes "editorReadKey inp = Done (CTRL_KEY (of_char CHR ''q''), inp1)"
    and "dirty E \<noteq> 0" and "0 < quit_times E"
  shows "editorProcessKeypress fs ts inp E =
           Done (inp1, E\<lparr>statusmsg := take 79 (quit_warning (quit_times E)),
                         quit_times := quit_times E - 1\<rparr>)"
  using assms
  by (simp add: editorProcessKeypress_def key_codes editorSetStatusMessage_def)

lemma keypress_quit_exits:
  assumes "editorReadKey inp = Done (CTRL_KEY (of_char CHR ''q''), inp1)"
    and "dirty E = 0 \<or> quit_times E \<le> 0"
  shows "editorProcessKeypress fs ts inp E = Exited 0"
  using assms
  by (auto simp: editorProcessKeypress_def key_codes)

lemma exists_after_switch: "\<exists>r. after_switch x = after_switch r"
  by (rule exI) (rule refl)

lemma keypress_other_resets:
  assumes "editorReadKey inp = Done (c, inp1)" and "c \<noteq> CTRL_KEY (of_char CHR ''q'')"
  shows "\<exists>r. editorProcessKeypress fs ts inp E = after_switch r"
  using assms by (simp add: editorProcessKeypress_def exists_after_switch)

lemma keypress_no_op:
  assumes "editorReadKey inp = Done (c, inp1)"
    and "c = CTRL_KEY (of_char CHR ''l'') \<or> c = char_to_int ESC"
  shows "editorProcessKeypress fs ts inp E = Done (inp1, E\<lparr>quit_times := 3\<rparr>)"
  using assms
  by (auto simp: editorProcessKeypress_def key_codes after_switch_Done
      HOME_KEY_def END_KEY_def BACKSPACE_def DEL_KEY_def PAGE_UP_def PAGE_DOWN_def
      ARROW_UP_def ARROW_DOWN_def ARROW_LEFT_def ARROW_RIGHT_def)

lemma view_reset_more_fields:
  assumes "view_reset E E' = E"
  shows "quit_times E' = quit_times E \<and> cx E' = cx E \<and> cy E' = cy E
         \<and> screenrows E' = screenrows E \<and> screencols E' = screencols E"
proof -
  have "quit_times (view_reset E E') = quit_times E' \<and> cx (view_reset E E') = cx E'
        \<and> cy (view_reset E E') = cy E' \<and> screenrows (view_reset E E') = screenrows E'
        \<and> screencols (view_reset E E') = screencols E'"
    by (simp add: view_reset_def)
  with assms show ?thesis by simp
qed

lemma main_loop_quit_step:
  assumes sc: "editorRefreshScreen T = Done T'" and d: "dirty T' \<noteq> 0" and q: "0 < quit_times T'"
  shows "main_loop (Suc n) fs tss (Byte CTRL_Q # inp) T =
           main_loop n fs tss inp (T'\<lparr>statusmsg := take 79 (quit_warning (quit_times T')),
                                       quit_times := quit_times T' - 1\<rparr>)"
  by (simp add: sc keypress_quit_warns [OF read_ctrl_q d q])

lemma main_loop_quit_exit:
  assumes sc: "editorRefreshScreen T = Done T'" and q: "quit_times T' \<le> 0"
  shows "main_loop (Suc n) fs tss (Byte CTRL_Q # inp) T = Exited 0"
  using q by (simp add: sc keypress_quit_exits [OF read_ctrl_q])

lemma main_loop_no_op_step:
  assumes sc: "editorRefreshScreen T = Done T'"
  shows "main_loop (Suc n) fs tss (Byte CTRL_L # inp) T
           = main_loop n fs tss inp (T'\<lparr>quit_times := 3\<rparr>)"
  by (simp add: sc keypress_no_op [OF read_ctrl_l disjI1 [OF refl]])

lemma quit_sequence:
  assumes d: "dirty E \<noteq> 0" and q: "quit_times E = JATE_QUIT_TIMES"
    and r: "editorRefreshScreen E = Done S"
  shows "main_loop 1 fs tss (Byte CTRL_Q # rest) E
           = Done (rest, S\<lparr>statusmsg := take 79 (quit_warning 3), quit_times := 2\<rparr>)"
    and "main_loop 2 fs tss (Byte CTRL_Q # Byte CTRL_Q # rest) E
           = Done (rest, S\<lparr>statusmsg := take 79 (quit_warning 2), quit_times := 1\<rparr>)"
    and "main_loop 3 fs tss (Byte CTRL_Q # Byte CTRL_Q # Byte CTRL_Q # rest) E
           = Done (rest, S\<lparr>statusmsg := take 79 (quit_warning 1), quit_times := 0\<rparr>)"
    and "main_loop 4 fs tss (Byte CTRL_Q # Byte CTRL_Q # Byte CTRL_Q # Byte CTRL_Q # rest) E
           = Exited 0"
    and "main_loop 6 fs tss (Byte CTRL_Q # Byte CTRL_Q # Byte CTRL_L
                              # Byte CTRL_Q # Byte CTRL_Q # Byte CTRL_Q # rest) E
           = Done (rest, S\<lparr>statusmsg := take 79 (quit_warning 1), quit_times := 0\<rparr>)"
    and "main_loop 7 fs tss (Byte CTRL_Q # Byte CTRL_Q # Byte CTRL_L
                              # Byte CTRL_Q # Byte CTRL_Q # Byte CTRL_Q # Byte CTRL_Q # rest) E
           = Exited 0"
proof -
  have f: "view_reset E S = E"
    using r unfolding editorRefreshScreen_def by (rule editorScroll_frame)
  have dS: "dirty S \<noteq> 0"
    using view_reset_fields [OF f] d by simp
  have qS: "quit_times S = 3"
    using view_reset_more_fields [OF f] q by (simp add: JATE_QUIT_TIMES_def)
  let ?S1 = "S\<lparr>statusmsg := take 79 (quit_warning 3), quit_times := 2\<rparr>"
  let ?S2 = "S\<lparr>statusmsg := take 79 (quit_warning 2), quit_times := 1\<rparr>"
  let ?S3 = "S\<lparr>statusmsg := take 79 (quit_warning 1), quit_times := 0\<rparr>"
  let ?R = "S\<lparr>statusmsg := take 79 (quit_warning 2), quit_times := 3\<rparr>"
  have again: "\<And>m k. editorRefreshScreen (S\<lparr>statusmsg := m, quit_times := k\<rparr>)
                    = Done (S\<lparr>statusmsg := m, quit_times := k\<rparr>)"
    using r unfolding editorRefreshScreen_def by (rule editorScroll_again)
  have s1: "\<And>n inp. main_loop (Suc n) fs tss (Byte CTRL_Q # inp) E = main_loop n fs tss inp ?S1"
    using main_loop_quit_step [OF r dS, where fs = fs and tss = tss] qS by simp
  have s2: "\<And>n inp. main_loop (Suc n) fs tss (Byte CTRL_Q # inp) ?S1 = main_loop n fs tss inp ?S2"
    using main_loop_quit_step [OF again [where m = "take 79 (quit_warning 3)" and k = 2],
        where fs = fs and tss = tss] dS by simp
  have s3: "\<And>n inp. main_loop (Suc n) fs tss (Byte CTRL_Q # inp) ?S2 = main_loop n fs tss inp ?S3"
    using main_loop_quit_step [OF again [where m = "take 79 (quit_warning 2)" and k = 1],
        where fs = fs and tss = tss] dS by simp
  have s4: "\<And>n inp. main_loop (Suc n) fs tss (Byte CTRL_Q # inp) ?S3 = Exited 0"
    using main_loop_quit_exit [OF again [where m = "take 79 (quit_warning 1)" and k = 0],
        where fs = fs and tss = tss] by simp
  have sL: "\<And>n inp. main_loop (Suc n) fs tss (Byte CTRL_L # inp) ?S2 = main_loop n fs tss inp ?R"
    using main_loop_no_op_step [OF again [where m = "take 79 (quit_warning 2)" and k = 1],
        where fs = fs and tss = tss] by simp
  have sR: "\<And>n inp. main_loop (Suc n) fs tss (Byte CTRL_Q # inp) ?R = main_loop n fs tss inp ?S1"
    using main_loop_quit_step [OF again [where m = "take 79 (quit_warning 2)" and k = 3],
        where fs = fs and tss = tss] dS by simp
  have n: "(1::nat) = Suc 0" "(2::nat) = Suc (Suc 0)" "(3::nat) = Suc (Suc (Suc 0))"
    "(4::nat) = Suc (Suc (Suc (Suc 0)))"
    "(6::nat) = Suc (Suc (Suc (Suc (Suc (Suc 0)))))"
    "(7::nat) = Suc (Suc (Suc (Suc (Suc (Suc (Suc 0))))))"
    by simp_all
  show "main_loop 1 fs tss (Byte CTRL_Q # rest) E = Done (rest, ?S1)"
    unfolding n s1 by simp
  show "main_loop 2 fs tss (Byte CTRL_Q # Byte CTRL_Q # rest) E = Done (rest, ?S2)"
    unfolding n s1 s2 by simp
  show "main_loop 3 fs tss (Byte CTRL_Q # Byte CTRL_Q # Byte CTRL_Q # rest) E = Done (rest, ?S3)"
    unfolding n s1 s2 s3 by simp
  show "main_loop 4 fs tss (Byte CTRL_Q # Byte CTRL_Q # Byte CTRL_Q # Byte CTRL_Q # rest) E = Exited 0"
    unfolding n s1 s2 s3 s4 by simp
  show "main_loop 6 fs tss (Byte CTRL_Q # Byte CTRL_Q # Byte CTRL_L
                              # Byte CTRL_Q # Byte CTRL_Q # Byte CTRL_Q # rest) E
           = Done (rest, ?S3)"
    unfolding n s1 s2 sL sR s3 by simp
  show "main_loop 7 fs tss (Byte CTRL_Q # Byte CTRL_Q # Byte CTRL_L
                              # Byte CTRL_Q # Byte CTRL_Q # Byte CTRL_Q # Byte CTRL_Q # rest) E
           = Exited 0"
    unfolding n s1 s2 sL sR s3 s4 by simp
qed

text \<open>
  Claim C2, amended. On the quit combo, a dirty document with confirmations left is
  never exited: the counter is decremented and the warning, with the number of presses
  still asked for, becomes the status message. On the quit combo with the document clean
  or no confirmation left, the process exits with status 0. Any other key runs its
  handler and then the statement that sets the counter back to 3, whatever the handler
  returned with; Ctrl-L and Escape, whose handler is empty, return with nothing else
  changed. From a dirty document with the counter at 3, three quit-combo presses in a row
  are answered by the warnings for 3, 2 and 1 more presses and leave the editor running
  with the counter at 0: it is the fourth press in a row that exits. With another key
  after two of the presses, three more presses are warned again and the next one exits.
\<close>

theorem quit_exits_on_fourth_press:
  "(editorReadKey inp = Done (CTRL_KEY (of_char CHR ''q''), inp1)
      \<and> dirty E \<noteq> 0 \<and> 0 < quit_times E \<longrightarrow>
        editorProcessKeypress fs ts inp E =
          Done (inp1,
            E\<lparr>statusmsg := take 79 (''WARNING!!! File has unsaved changes. Press Ctrl-q ''
                                       @ show_int (quit_times E) @ '' more times to quit''),
              quit_times := quit_times E - 1\<rparr>))
   \<and> (editorReadKey inp = Done (CTRL_KEY (of_char CHR ''q''), inp1)
      \<and> (dirty E = 0 \<or> quit_times E \<le> 0) \<longrightarrow>
        editorProcessKeypress fs ts inp E = Exited 0)
   \<and> (editorReadKey inp = Done (c, inp1) \<and> c \<noteq> CTRL_KEY (of_char CHR ''q'') \<longrightarrow>
        (\<exists>r. editorProcessKeypress fs ts inp E = after_switch r))
   \<and> after_switch (Done (inp2, E2)) = Done (inp2, E2\<lparr>quit_times := 3\<rparr>)
   \<and> after_switch Fault = Fault \<and> after_switch Blocked = Blocked
   \<and> after_switch (Exited n) = Exited n
   \<and> (editorReadKey inp = Done (c, inp1)
      \<and> (c = CTRL_KEY (of_char CHR ''l'') \<or> c = char_to_int ESC) \<longrightarrow>
        editorProcessKeypress fs ts inp E = Done (inp1, E\<lparr>quit_times := 3\<rparr>))
   \<and> (dirty E \<noteq> 0 \<and> quit_times E = 3 \<and> editorRefreshScreen E = Done S \<longrightarrow>
        main_loop 1 fs tss (Byte CTRL_Q # rest) E
          = Done (rest,
              S\<lparr>statusmsg := ''WARNING!!! File has unsaved changes. Press Ctrl-q 3 more times to quit'',
                quit_times := 2\<rparr>)
      \<and> main_loop 2 fs tss (Byte CTRL_Q # Byte CTRL_Q # rest) E
          = Done (rest,
              S\<lparr>statusmsg := ''WARNING!!! File has unsaved changes. Press Ctrl-q 2 more times to quit'',
                quit_times := 1\<rparr>)
      \<and> main_loop 3 fs tss (Byte CTRL_Q # Byte CTRL_Q # Byte CTRL_Q # rest) E
          = Done (rest,
              S\<lparr>statusmsg := ''WARNING!!! File has unsaved changes. Press Ctrl-q 1 more times to quit'',
                quit_times := 0\<rparr>)
      \<and> main_loop 4 fs tss (Byte CTRL_Q # Byte CTRL_Q # Byte CTRL_Q # Byte CTRL_Q # rest) E
          = Exited 0
      \<and> main_loop 6 fs tss (Byte CTRL_Q # Byte CTRL_Q # Byte CTRL_L
                              # Byte CTRL_Q # Byte CTRL_Q # Byte CTRL_Q # rest) E
          = Done (rest,
              S\<lparr>statusmsg := ''WARNING!!! File has unsaved changes. Press Ctrl-q 1 more times to quit'',
                quit_times := 0\<rparr>)
      \<and> main_loop 7 fs tss (Byte CTRL_Q # Byte CTRL_Q # Byte CTRL_L
                              # Byte CTRL_Q # Byte CTRL_Q # Byte CTRL_Q # Byte CTRL_Q # rest) E
          = Exited 0)"
proof (intro conjI impI)
  assume "editorReadKey inp = Done (CTRL_KEY (of_char CHR ''q''), inp1)
      \<and> dirty E \<noteq> 0 \<and> 0 < quit_times E"
  then have "editorProcessKeypress fs ts inp E =
          Done (inp1, E\<lparr>statusmsg := take 79 (quit_warning (quit_times E)),
                        quit_times := quit_times E - 1\<rparr>)"
    by (intro keypress_quit_warns) simp_all
  then show "editorProcessKeypress fs ts inp E =
          Done (inp1,
            E\<lparr>statusmsg := take 79 (''WARNING!!! File has unsaved changes. Press Ctrl-q ''
                                       @ show_int (quit_times E) @ '' more times to quit''),
              quit_times := quit_times E - 1\<rparr>)"
    unfolding quit_warning_text .
next
  assume "editorReadKey inp = Done (CTRL_KEY (of_char CHR ''q''), inp1)
      \<and> (dirty E = 0 \<or> quit_times E \<le> 0)"
  then show "editorProcessKeypress fs ts inp E = Exited 0"
    by (intro keypress_quit_exits [of inp inp1]) simp_all
next
  assume "editorReadKey inp = Done (c, inp1) \<and> c \<noteq> CTRL_KEY (of_char CHR ''q'')"
  then show "\<exists>r. editorProcessKeypress fs ts inp E = after_switch r"
    by (intro keypress_other_resets [of inp c inp1]) simp_all
next
  show "after_switch (Done (inp2, E2)) = Done (inp2, E2\<lparr>quit_times := 3\<rparr>)"
    by (rule after_switch_Done)
  show "after_switch Fault = Fault" "after_switch Blocked = Blocked"
    "after_switch (Exited n) = Exited n"
    by (simp_all add: after_switch_def)
next
  assume "editorReadKey inp = Done (c, inp1)
      \<and> (c = CTRL_KEY (of_char CHR ''l'') \<or> c = char_to_int ESC)"
  then show "editorProcessKeypress fs ts inp E = Done (inp1, E\<lparr>quit_times := 3\<rparr>)"
    by (intro keypress_no_op [of inp c inp1]) simp_all
next
  assume a: "dirty E \<noteq> 0 \<and> quit_times E = 3 \<and> editorRefreshScreen E = Done S"
  then have d: "dirty E \<noteq> 0" and q: "quit_times E = JATE_QUIT_TIMES"
    and r: "editorRefreshScreen E = Done S"
    by (simp_all add: JATE_QUIT_TIMES_def)
  note qs = quit_sequence [OF d q r, where fs = fs and tss = tss and rest = rest,
      unfolded quit_warning_small]
  show "main_loop 1 fs tss (Byte CTRL_Q # rest) E
          = Done (rest,
              S\<lparr>statusmsg := ''WARNING!!! File has unsaved changes. Press Ctrl-q 3 more times to quit'',
                quit_times := 2\<rparr>)"
    by (rule qs)
  show "main_loop 2 fs tss (Byte CTRL_Q # Byte CTRL_Q # rest) E
          = Done (rest,
              S\<lparr>statusmsg := ''WARNING!!! File has unsaved changes. Press Ctrl-q 2 more times to quit'',
                quit_times := 1\<rparr>)"
    by (rule qs)
  show "main_loop 3 fs tss (Byte CTRL_Q # Byte CTRL_Q # Byte CTRL_Q # rest) E
          = Done (rest,
              S\<lparr>statusmsg := ''WARNING!!! File has unsaved changes. Press Ctrl-q 1 more times to quit'',
                quit_times := 0\<rparr>)"
    by (rule qs)
  show "main_loop 4 fs tss (Byte CTRL_Q # Byte CTRL_Q # Byte CTRL_Q # Byte CTRL_Q # rest) E
          = Exited 0"
    by (rule qs)
  show "main_loop 6 fs tss (Byte CTRL_Q # Byte CTRL_Q # Byte CTRL_L
                              # Byte CTRL_Q # Byte CTRL_Q # Byte CTRL_Q # rest) E
          = Done (rest,
              S\<lparr>statusmsg := ''WARNING!!! File has unsaved changes. Press Ctrl-q 1 more times to quit'',
                quit_times := 0\<rparr>)"
    by (rule qs)
  show "main_loop 7 fs tss (Byte CTRL_Q # Byte CTRL_Q # Byte CTRL_L
                              # Byte CTRL_Q # Byte CTRL_Q # Byte CTRL_Q # Byte CTRL_Q # rest) E
          = Exited 0"
    by (rule qs)
qed

lemma refresh_named_doc: "editorRefreshScreen named_doc = Done (named_doc\<lparr>rx := 2\<rparr>)"
proof -
  have "editorRowCxToRx \<lparr>chars = ''hello'', render = ''hello''\<rparr> 2 = Done 2"
    by (subst editorRowCxToRx_render) (simp_all add: row_size_def TAB_def)
  then show ?thesis
    by (simp add: editorRefreshScreen_def editorScroll_def named_doc_def example_doc_def
        initEditor_def numrows_def row_at_def Let_def)
qed

theorem quit_exits_on_fourth_press_witness:
  "editorProcessKeypress failing_store (0, 0) [Byte CTRL_Q] named_doc
     = Done ([], named_doc
         \<lparr>statusmsg := ''WARNING!!! File has unsaved changes. Press Ctrl-q 3 more times to quit'',
           quit_times := 2\<rparr>)
   \<and> editorProcessKeypress failing_store (0, 0) [Byte CTRL_Q] (named_doc\<lparr>quit_times := 0\<rparr>)
       = Exited 0
   \<and> editorProcessKeypress failing_store (0, 0) [Byte ESC, NoData] (named_doc\<lparr>quit_times := 1\<rparr>)
       = Done ([], named_doc\<lparr>quit_times := 3\<rparr>)
   \<and> main_loop 3 failing_store tabs_zero_keys [Byte CTRL_Q, Byte CTRL_Q, Byte CTRL_Q] named_doc
       = Done ([], named_doc
           \<lparr>rx := 2,
             statusmsg := ''WARNING!!! File has unsaved changes. Press Ctrl-q 1 more times to quit'',
             quit_times := 0\<rparr>)
   \<and> main_loop 4 failing_store tabs_zero_keys
         [Byte CTRL_Q, Byte CTRL_Q, Byte CTRL_Q, Byte CTRL_Q] named_doc
       = Exited 0
   \<and> main_loop 7 failing_store tabs_zero_keys
         [Byte CTRL_Q, Byte CTRL_Q, Byte CTRL_L, Byte CTRL_Q, Byte CTRL_Q, Byte CTRL_Q, Byte CTRL_Q]
         named_doc
       = Exited 0"
proof -
  have kq: "editorReadKey [Byte CTRL_Q] = Done (CTRL_KEY (of_char CHR ''q''), [])"
    by (rule read_ctrl_q)
  have ke: "editorReadKey [Byte ESC, NoData] = Done (char_to_int ESC, [])"
    using read_bare_escape by (simp add: key_codes)
  have d: "dirty named_doc \<noteq> 0" "quit_times named_doc = 3"
    "dirty (named_doc\<lparr>quit_times := 0\<rparr>) \<noteq> 0" "0 < quit_times named_doc"
    by (simp_all add: named_doc_def example_doc_def initEditor_def JATE_QUIT_TIMES_def)
  note T = quit_exits_on_fourth_press [where fs = failing_store]
  have c1: "editorProcessKeypress failing_store (0, 0) [Byte CTRL_Q] named_doc
     = Done ([], named_doc
         \<lparr>statusmsg := ''WARNING!!! File has unsaved changes. Press Ctrl-q 3 more times to quit'',
           quit_times := 2\<rparr>)"
    using T [where E = named_doc and inp = "[Byte CTRL_Q]" and ?inp1.0 = "[]" and ts = "(0, 0)",
        THEN conjunct1] kq d
    by (simp add: show_int_small)
  have c2: "editorProcessKeypress failing_store (0, 0) [Byte CTRL_Q] (named_doc\<lparr>quit_times := 0\<rparr>)
            = Exited 0"
    using T [where E = "named_doc\<lparr>quit_times := 0\<rparr>" and inp = "[Byte CTRL_Q]"
        and ?inp1.0 = "[]" and ts = "(0, 0)", THEN conjunct2, THEN conjunct1] kq
    by simp
  have c3: "editorProcessKeypress failing_store (0, 0) [Byte ESC, NoData] (named_doc\<lparr>quit_times := 1\<rparr>)
       = Done ([], named_doc\<lparr>quit_times := 3\<rparr>)"
    using T [where E = "named_doc\<lparr>quit_times := 1\<rparr>" and inp = "[Byte ESC, NoData]"
        and ?inp1.0 = "[]" and ts = "(0, 0)" and c = "char_to_int ESC",
        THEN conjunct2, THEN conjunct2, THEN conjunct2, THEN conjunct2, THEN conjunct2,
        THEN conjunct2, THEN conjunct2, THEN conjunct1] ke
    by simp
  note M = T [where E = named_doc and S = "named_doc\<lparr>rx := 2\<rparr>" and rest = "[]"
        and tss = tabs_zero_keys,
        THEN conjunct2, THEN conjunct2, THEN conjunct2, THEN conjunct2, THEN conjunct2,
        THEN conjunct2, THEN conjunct2, THEN conjunct2]
  have c4: "main_loop 3 failing_store tabs_zero_keys [Byte CTRL_Q, Byte CTRL_Q, Byte CTRL_Q] named_doc
       = Done ([], named_doc
           \<lparr>rx := 2,
             statusmsg := ''WARNING!!! File has unsaved changes. Press Ctrl-q 1 more times to quit'',
             quit_times := 0\<rparr>)
     \<and> main_loop 4 failing_store tabs_zero_keys
         [Byte CTRL_Q, Byte CTRL_Q, Byte CTRL_Q, Byte CTRL_Q] named_doc
       = Exited 0
     \<and> main_loop 7 failing_store tabs_zero_keys
         [Byte CTRL_Q, Byte CTRL_Q, Byte CTRL_L, Byte CTRL_Q, Byte CTRL_Q, Byte CTRL_Q, Byte CTRL_Q]
         named_doc
       = Exited 0"
    using M d refresh_named_doc by simp
  show ?thesis
    using c1 c2 c3 c4 by (simp only: simp_thms)
qed

text \<open>
  Claim C2 as stated fails: after exactly three consecutive quit-combo presses on a dirty
  document the editor has not terminated. It has returned from the third press with the
  warning for one more press as its status message.
\<close>

theorem three_quit_presses_do_not_exit:
  "main_loop 3 failing_store tabs_zero_keys [Byte CTRL_Q, Byte CTRL_Q, Byte CTRL_Q] named_doc
     = Done ([], named_doc
         \<lparr>rx := 2,
           statusmsg := ''WARNING!!! File has unsaved changes. Press Ctrl-q 1 more times to quit'',
           quit_times := 0\<rparr>)
   \<and> dirty named_doc = 5"
proof -
  have d: "dirty named_doc \<noteq> 0" "quit_times named_doc = JATE_QUIT_TIMES"
    by (simp_all add: named_doc_def example_doc_def initEditor_def)
  have "main_loop 3 failing_store tabs_zero_keys ([Byte CTRL_Q, Byte CTRL_Q, Byte CTRL_Q] @ []) named_doc
     = Done ([], named_doc\<lparr>rx := 2\<rparr>\<lparr>statusmsg := take 79 (quit_warning 1), quit_times := 0\<rparr>)"
    using quit_sequence(3) [OF d refresh_named_doc, where rest = "[]"] by simp
  then show ?thesis
    unfolding quit_warning_small by (simp add: named_doc_def)
qed

section \<open>Keys without a case\<close>











section \<open>Page keys\<close>

lemma andThen_assoc: "andThen (andThen m f) g = andThen m (\<lambda>x. andThen (f x) g)"
  by (cases m) auto

lemma andThen_Done_right: "andThen m Done = m"
  by (cases m) auto

lemma andThen_cong_Done:
  "(\<And>x. m = Done x \<Longrightarrow> f x = g x) \<Longrightarrow> andThen m f = andThen m g"
  by (cases m) auto

lemma snap_cx_again: "andThen (snap_cx E1) snap_cx = snap_cx E1"
proof (cases "cy E1 \<ge> numrows E1")
  case True
  then show ?thesis
    by (simp add: snap_cx_def numrows_def)
next
  case False
  show ?thesis
  proof (cases "0 \<le> cy E1")
    case True
    with False show ?thesis
      by (simp add: snap_cx_def numrows_def row_at_def)
  next
    case False
    then show ?thesis
      by (simp add: snap_cx_def numrows_def row_at_def)
  qed
qed

lemma editorMoveCursor_other_key:
  assumes "key \<noteq> ARROW_LEFT" "key \<noteq> ARROW_RIGHT" "key \<noteq> ARROW_UP" "key \<noteq> ARROW_DOWN"
  shows "editorMoveCursor key E = snap_cx E"
  using assms by (simp add: editorMoveCursor_def snap_cx_def)

lemma editorMoveCursor_ends_with_snap:
  "\<exists>m. editorMoveCursor key E = andThen m snap_cx"
  unfolding editorMoveCursor_def snap_cx_def [abs_def] by blast

lemma move_then_snap: "andThen (editorMoveCursor key E) snap_cx = editorMoveCursor key E"
proof -
  obtain m where m: "editorMoveCursor key E = andThen m snap_cx"
    using editorMoveCursor_ends_with_snap by blast
  have "andThen (andThen m snap_cx) snap_cx = andThen m (\<lambda>x. andThen (snap_cx x) snap_cx)"
    by (rule andThen_assoc)
  also have "\<dots> = andThen m snap_cx"
    by (simp add: snap_cx_again)
  finally show ?thesis
    unfolding m .
qed

lemma page_loop_then_snap:
  "1 \<le> n \<Longrightarrow> andThen (page_loop n key E) snap_cx = page_loop n key E"
proof (induction n key E rule: page_loop.induct)
  case (1 n key E)
  from "1.prems" have n: "n \<noteq> 0" "\<not> n < 0" by simp_all
  have unf: "\<And>E'. page_loop n key E' = andThen (editorMoveCursor key E') (\<lambda>E1. page_loop (n - 1) key E1)"
    using n by (subst page_loop.simps) simp
  show ?case
  proof (cases "n = 1")
    case True
    have "\<And>E1. page_loop (n - 1) key E1 = Done E1"
      using True by (subst page_loop.simps) simp
    then have "page_loop (n - 1) key = Done"
      by (intro ext)
    then have "page_loop n key E = editorMoveCursor key E"
      unfolding unf by (simp add: andThen_Done_right)
    then show ?thesis
      by (simp add: move_then_snap)
  next
    case False
    with "1.prems" have ge: "1 \<le> n - 1" by simp
    have "andThen (page_loop n key E) snap_cx
          = andThen (editorMoveCursor key E) (\<lambda>E1. andThen (page_loop (n - 1) key E1) snap_cx)"
      unfolding unf by (rule andThen_assoc)
    also have "\<dots> = andThen (editorMoveCursor key E) (\<lambda>E1. page_loop (n - 1) key E1)"
      using "1.IH" [OF n ge] by (intro andThen_cong_Done) simp
    finally show ?thesis
      unfolding unf .
  qed
qed

lemma keypress_page_key:
  assumes k: "editorReadKey inp = Done (c, inp1)" and pg: "c = PAGE_UP \<or> c = PAGE_DOWN"
  shows "editorProcessKeypress fs ts inp E =
           after_switch (with_input inp1 (andThen (page_block c E) (editorMoveCursor c)))"
  using pg
  by (auto simp: editorProcessKeypress_def k key_codes PAGE_UP_def PAGE_DOWN_def HOME_KEY_def
      END_KEY_def BACKSPACE_def DEL_KEY_def)

text \<open>
  Claim C9, amended. A PageUp or PageDown key runs its block and then, for want of a
  \<open>break\<close>, the call \<open>editorMoveCursor(c)\<close> of the arrow keys, with the page key itself as
  \<open>c\<close>. That call matches no arrow direction and only snaps \<open>cx\<close> once more: on a screen
  of at least one text row it changes nothing, and the state after the key is the one the
  relocation and the \<open>screenrows\<close> vertical moves alone produce.
\<close>

theorem page_key_fallthrough_moves_nothing:
  assumes k: "editorReadKey inp = Done (c, inp1)" and pg: "c = PAGE_UP \<or> c = PAGE_DOWN"
    and sr: "1 \<le> screenrows E"
  shows "editorProcessKeypress fs ts inp E =
           after_switch (with_input inp1 (andThen (page_block c E) (editorMoveCursor c)))
         \<and> andThen (page_block c E) (editorMoveCursor c) = page_block c E"
proof
  show "editorProcessKeypress fs ts inp E =
           after_switch (with_input inp1 (andThen (page_block c E) (editorMoveCursor c)))"
    using k pg by (rule keypress_page_key)
  have "editorMoveCursor c = snap_cx"
    using pg
    by (intro ext editorMoveCursor_other_key)
      (auto simp: PAGE_UP_def PAGE_DOWN_def ARROW_LEFT_def ARROW_RIGHT_def ARROW_UP_def
        ARROW_DOWN_def)
  moreover have "andThen (page_block c E) snap_cx = page_block c E"
    unfolding page_block_def Let_def
    using sr by (intro page_loop_then_snap) (simp split: if_splits)
  ultimately show "andThen (page_block c E) (editorMoveCursor c) = page_block c E"
    by simp
qed

lemma read_page_down: "editorReadKey page_down_bytes = Done (PAGE_DOWN, [])"
  by (simp add: editorReadKey_def page_down_bytes_def char_to_int_def ESC_def)

lemma page_down_four_lines:
  "page_block PAGE_DOWN four_lines = Done (four_lines\<lparr>cy := 4, cx := 0\<rparr>)"
  by (simp add: page_block_def page_loop.simps editorMoveCursor_def four_lines_def
      initEditor_def numrows_def row_at_def row_size_def Let_def PAGE_UP_def PAGE_DOWN_def
      ARROW_LEFT_def ARROW_RIGHT_def ARROW_UP_def ARROW_DOWN_def)

theorem page_key_fallthrough_moves_nothing_witness:
  "editorReadKey page_down_bytes = Done (PAGE_DOWN, [])
   \<and> (PAGE_DOWN = PAGE_UP \<or> PAGE_DOWN = PAGE_DOWN)
   \<and> 1 \<le> screenrows four_lines
   \<and> editorProcessKeypress failing_store (0, 0) page_down_bytes four_lines =
         after_switch (with_input []
           (andThen (page_block PAGE_DOWN four_lines) (editorMoveCursor PAGE_DOWN)))
   \<and> andThen (page_block PAGE_DOWN four_lines) (editorMoveCursor PAGE_DOWN)
       = page_block PAGE_DOWN four_lines"
proof -
  have pg: "PAGE_DOWN = PAGE_UP \<or> PAGE_DOWN = PAGE_DOWN"
    by simp
  have sr: "1 \<le> screenrows four_lines"
    by (simp add: four_lines_def initEditor_def)
  show ?thesis
    by (intro conjI read_page_down pg sr
        page_key_fallthrough_moves_nothing [OF read_page_down pg sr, THEN conjunct1]
        page_key_fallthrough_moves_nothing [OF read_page_down pg sr, THEN conjunct2])
qed

text \<open>
  Claim C9 as stated fails: on a document of four lines with a screen of three text rows
  and the cursor at column 4 of the first line, PageDown leaves the cursor at line 4,
  column 0, which is exactly where the relocation and the three moves down leave it.
\<close>

theorem page_down_cursor_same_without_fallthrough:
  "editorProcessKeypress failing_store (0, 0) page_down_bytes four_lines
     = Done ([], four_lines\<lparr>cy := 4, cx := 0\<rparr>)
   \<and> page_block PAGE_DOWN four_lines = Done (four_lines\<lparr>cy := 4, cx := 0\<rparr>)"
proof -
  have m: "editorMoveCursor PAGE_DOWN (four_lines\<lparr>cy := 4, cx := 0\<rparr>)
           = Done (four_lines\<lparr>cy := 4, cx := 0\<rparr>)"
    by (simp add: editorMoveCursor_def four_lines_def initEditor_def numrows_def
        PAGE_DOWN_def ARROW_LEFT_def ARROW_RIGHT_def ARROW_UP_def ARROW_DOWN_def)
  have q: "quit_times four_lines = JATE_QUIT_TIMES"
    by (simp add: four_lines_def initEditor_def)
  have "(four_lines\<lparr>cy := 4, cx := 0\<rparr>)\<lparr>quit_times := quit_times four_lines\<rparr>
        = four_lines\<lparr>cy := 4, cx := 0\<rparr>"
    by simp
  then have u: "(four_lines\<lparr>cy := 4, cx := 0\<rparr>)\<lparr>quit_times := JATE_QUIT_TIMES\<rparr>
        = four_lines\<lparr>cy := 4, cx := 0\<rparr>"
    unfolding q .
  have "editorProcessKeypress failing_store (0, 0) page_down_bytes four_lines
     = Done ([], four_lines\<lparr>cy := 4, cx := 0\<rparr>)"
    unfolding keypress_page_key [OF read_page_down disjI2 [OF refl]] page_down_four_lines
    by (simp add: m after_switch_def with_input_def u)
  then show ?thesis
    using page_down_four_lines by simp
qed

section \<open>The status bar\<close>

lemma status_pad_result:
  assumes "len \<le> cols" and "rlen = int (length rstatus)"
  shows "status_pad ab len cols rstatus rlen =
           Done (ab @ (if rlen \<le> cols - len
                       then replicate (nat (cols - len - rlen)) SPACE @ rstatus
                       else replicate (nat (cols - len)) SPACE))"
  using assms
proof (induction "nat (cols - len)" arbitrary: ab len)
  case 0
  then have "len = cols" by simp
  with 0 show ?case
    by (subst status_pad.simps) simp
next
  case (Suc n)
  then have lt: "len < cols" by simp
  show ?case
  proof (cases "cols - len = rlen")
    case True
    with lt Suc.prems show ?thesis
      by (subst status_pad.simps) (simp add: abAppend_def)
  next
    case False
    have step: "status_pad ab len cols rstatus rlen
          = status_pad (ab @ [SPACE]) (len + 1) cols rstatus rlen"
      using lt False by (subst status_pad.simps) (simp add: abAppend_def)
    have ih: "status_pad (ab @ [SPACE]) (len + 1) cols rstatus rlen =
           Done ((ab @ [SPACE]) @ (if rlen \<le> cols - (len + 1)
                       then replicate (nat (cols - (len + 1) - rlen)) SPACE @ rstatus
                       else replicate (nat (cols - (len + 1))) SPACE))"
      using Suc.hyps(2) lt Suc.prems(2) by (intro Suc.hyps(1)) simp_all
    show ?thesis
    proof (cases "rlen \<le> cols - len")
      case True
      with False have a: "rlen \<le> cols - (len + 1)" by simp
      then have "nat (cols - len - rlen) = Suc (nat (cols - (len + 1) - rlen))"
        by simp
      with a True show ?thesis
        unfolding step ih by simp
    next
      case nle: False
      then have a: "\<not> rlen \<le> cols - (len + 1)" by simp
      have "nat (cols - len) = Suc (nat (cols - (len + 1)))"
        using lt by simp
      with a nle show ?thesis
        unfolding step ih by (simp add: replicate_append_same)
    qed
  qed
qed

lemma editorDrawStatusBar_row:
  assumes cols: "0 \<le> screencols E"
    and fit: "length (status_left E) \<le> 79" "length (status_right E) \<le> 79"
  shows "(let shown = take (nat (screencols E)) (status_left E);
              room = screencols E - int (length shown)
          in editorDrawStatusBar ab E =
               Done (ab @ (ESC # ''[7m'') @ shown
                     @ (if int (length (status_right E)) \<le> room
                        then replicate (nat (room - int (length (status_right E)))) SPACE
                             @ status_right E
                        else replicate (nat room) SPACE)
                     @ (ESC # ''[m'') @ [CR, LF]))
         \<and> status_left E =
               take 20 (case filename E of Some f \<Rightarrow> f | None \<Rightarrow> ''[No Name]'')
               @ '' - '' @ show_int (numrows E) @ '' lines''
         \<and> status_right E = show_int (cy E + 1) @ ''/'' @ show_int (numrows E)"
proof (intro conjI)
  let ?text = "status_left E"
  let ?rtext = "status_right E"
  let ?cols = "screencols E"
  let ?len1 = "if int (length ?text) > ?cols then ?cols else int (length ?text)"
  have t79: "take 79 ?text = ?text" "take 79 ?rtext = ?rtext"
    using fit by simp_all
  have a1: "abAppend ab (ESC # ''[7m'') 4 = Done (ab @ (ESC # ''[7m''))"
    by (simp add: abAppend_def)
  have l1: "0 \<le> ?len1" "?len1 \<le> int (length ?text)" "?len1 \<le> ?cols"
    using cols by simp_all
  have tk: "take (nat ?len1) ?text = take (nat ?cols) ?text"
    by simp
  have ln: "int (length (take (nat ?cols) ?text)) = ?len1"
  proof (cases "?cols < int (length ?text)")
    case True
    then have "nat ?cols < length ?text"
      using cols by linarith
    then have "min (length ?text) (nat ?cols) = nat ?cols"
      by simp
    with True cols show ?thesis
      by simp
  next
    case False
    then have "length ?text \<le> nat ?cols"
      by linarith
    then have "min (length ?text) (nat ?cols) = length ?text"
      by simp
    with False show ?thesis
      by simp
  qed
  have a2: "\<And>b. abAppend b ?text ?len1 = Done (b @ take (nat ?cols) ?text)"
    using l1 tk unfolding abAppend_def by simp
  have a3: "\<And>b. status_pad b ?len1 ?cols ?rtext (int (length ?rtext)) =
           Done (b @ (if int (length ?rtext) \<le> ?cols - ?len1
                       then replicate (nat (?cols - ?len1 - int (length ?rtext))) SPACE @ ?rtext
                       else replicate (nat (?cols - ?len1)) SPACE))"
    using l1(3) by (intro status_pad_result) simp_all
  have a4: "\<And>b. abAppend b (ESC # ''[m'') 3 = Done (b @ (ESC # ''[m''))"
    by (simp add: abAppend_def)
  have a5: "\<And>b. abAppend b [CR, LF] 2 = Done (b @ [CR, LF])"
    by (simp add: abAppend_def)
  have "editorDrawStatusBar ab E =
      Done (ab @ (ESC # ''[7m'') @ take (nat ?cols) ?text
            @ (if int (length ?rtext) \<le> ?cols - ?len1
               then replicate (nat (?cols - ?len1 - int (length ?rtext))) SPACE @ ?rtext
               else replicate (nat (?cols - ?len1)) SPACE)
            @ (ESC # ''[m'') @ [CR, LF])"
    unfolding editorDrawStatusBar_def Let_def a1 andThen.simps
      status_left_def [symmetric] status_right_def [symmetric] t79 a2 a3 a4 a5
    by simp
  then show "let shown = take (nat (screencols E)) (status_left E);
              room = screencols E - int (length shown)
          in editorDrawStatusBar ab E =
               Done (ab @ (ESC # ''[7m'') @ shown
                     @ (if int (length (status_right E)) \<le> room
                        then replicate (nat (room - int (length (status_right E)))) SPACE
                             @ status_right E
                        else replicate (nat room) SPACE)
                     @ (ESC # ''[m'') @ [CR, LF])"
    unfolding Let_def ln .
  show "status_left E =
               take 20 (case filename E of Some f \<Rightarrow> f | None \<Rightarrow> ''[No Name]'')
               @ '' - '' @ show_int (numrows E) @ '' lines''"
    by (simp add: status_left_def status_format_def)
  show "status_right E = show_int (cy E + 1) @ ''/'' @ show_int (numrows E)"
    by (simp add: status_right_def rstatus_format_def)
qed

lemma status_texts_named_doc:
  "status_left named_doc = ''t.txt - 1 lines''"
  "status_right named_doc = ''1/1''"
  by (simp_all add: status_left_def status_right_def status_format_def rstatus_format_def
      named_doc_def example_doc_def initEditor_def numrows_def show_int_small)

lemma status_bar_named_doc:
  "editorDrawStatusBar [] named_doc =
       Done ((ESC # ''[7m'') @ ''t.txt - 1 lines'' @ replicate 62 SPACE @ ''1/1''
             @ (ESC # ''[m'') @ [CR, LF])"
proof -
  have h1: "0 \<le> screencols named_doc"
    by (simp add: named_doc_def example_doc_def initEditor_def)
  have h2: "length (status_left named_doc) \<le> 79" "length (status_right named_doc) \<le> 79"
    by (simp_all add: status_texts_named_doc)
  have c: "screencols named_doc = 80"
    by (simp add: named_doc_def example_doc_def initEditor_def)
  from editorDrawStatusBar_row [OF h1 h2, of "[]", THEN conjunct1]
  show ?thesis
    by (simp add: Let_def status_texts_named_doc c)
qed

text \<open>
  Claim C8. The status bar row does not depend on the dirty counter. \<open>editorDrawStatusBar\<close>
  passes the text \<open>(modified)\<close>, or the empty text for a clean document, to \<open>snprintf\<close> as
  the argument after the line count, but the format \<open>"%.20s - %d lines"\<close> has no
  conversion for it. On the modified document \<open>t.txt\<close> of one line, on a screen of 80
  columns, the row is the name and the line count, 62 spaces and the right text \<open>1/1\<close>:
  there is room for the marker, and it is not there.
\<close>

theorem status_bar_without_modified_marker:
  "editorDrawStatusBar ab (E\<lparr>dirty := d\<rparr>) = editorDrawStatusBar ab E
   \<and> dirty named_doc = 5
   \<and> screencols named_doc = 80
   \<and> editorDrawStatusBar [] named_doc =
       Done ((ESC # ''[7m'') @ ''t.txt - 1 lines'' @ replicate 62 SPACE @ ''1/1''
             @ (ESC # ''[m'') @ [CR, LF])"
proof (intro conjI)
  show "editorDrawStatusBar ab (E\<lparr>dirty := d\<rparr>) = editorDrawStatusBar ab E"
    by (simp add: editorDrawStatusBar_def status_format_def numrows_def Let_def)
  show "dirty named_doc = 5" "screencols named_doc = 80"
    by (simp_all add: named_doc_def example_doc_def initEditor_def)
  show "editorDrawStatusBar [] named_doc =
       Done ((ESC # ''[7m'') @ ''t.txt - 1 lines'' @ replicate 62 SPACE @ ''1/1''
             @ (ESC # ''[m'') @ [CR, LF])"
    by (rule status_bar_named_doc)
qed

theorem status_bar_without_modified_marker_witness:
  "editorDrawStatusBar [] (named_doc\<lparr>dirty := 0\<rparr>) =
       Done ((ESC # ''[7m'') @ ''t.txt - 1 lines'' @ replicate 62 SPACE @ ''1/1''
             @ (ESC # ''[m'') @ [CR, LF])
   \<and> dirty (named_doc\<lparr>dirty := 0\<rparr>) = 0
   \<and> dirty named_doc = 5"
proof -
  note T = status_bar_without_modified_marker [where ab = "[]" and E = named_doc and d = 0]
  from T have "editorDrawStatusBar [] (named_doc\<lparr>dirty := 0\<rparr>) = editorDrawStatusBar [] named_doc"
    by (rule conjunct1)
  moreover from T have "editorDrawStatusBar [] named_doc =
       Done ((ESC # ''[7m'') @ ''t.txt - 1 lines'' @ replicate 62 SPACE @ ''1/1''
             @ (ESC # ''[m'') @ [CR, LF])"
    by (simp only:)
  moreover from T have "dirty named_doc = 5"
    by (simp only:)
  ultimately show ?thesis
    by simp
qed

end
